theory Spec2Isabelle
  imports Main "HOL-Library.AList"
begin

section \<open>CreateDeployments.py: copy a template tree, then render its top-level templates\<close>

text \<open>
  The script copies a directory of deployment templates to a destination directory and
  then renders every entry directly inside the destination whose name ends in \<open>.j2\<close>.
  The model below follows \<^verbatim>\<open>src/scripts/CreateDeployments.py\<close> function by function.

  \<^item> A directory is an association list from entry names to nodes; its order is the order
    in which \<^verbatim>\<open>os.listdir\<close> reports the entries.
  \<^item> The file system assigns to a directory path (a string, as the script builds it with
    \<^verbatim>\<open>os.path.join\<close>) the tree that stands there; an entry inside a directory is
    addressed by the directory's path and the entry's name. The trees at different paths
    are independent of each other. This is the file system as long as the paths are
    \<open>apart\<close>: absolute, without \<^verbatim>\<open>..\<close>, and none inside another (and no symbolic link
    leads from one into another). What a copy does with a destination inside its source,
    where the library reads back what it has just written, is not described, and every
    statement below about the result of a copy is made for a source and a destination
    that are apart.
  \<^item> Every raise and every \<^verbatim>\<open>exit\<close> is a value of \<open>error\<close>; each operation returns
    the state it leaves behind together with \<open>None\<close> (it returned) or \<open>Some e\<close>.
  \<^item> The three libraries the script calls are not part of the repository. The template
    engine and the JSON parser are parameters; \<^verbatim>\<open>distutils.dir_util.copy_tree\<close> is
    modelled on directory trees after the library's own code.
  \<^item> The \<^verbatim>\<open>print\<close> calls are left out.
\<close>

subsection \<open>Data\<close>

datatype node = File string | Dir "(string \<times> node) list"

type_synonym dir = "(string \<times> node) list"

datatype error =
    SystemExit nat
  | TypeError
  | FileNotFoundError
  | IsADirectoryError
  | NotADirectoryError
  | JSONDecodeError
  | DistutilsFileError
  | TemplateNotFound
  | TemplateError

text \<open>
  What a run does besides changing files: it parses the input file, and it asks the
  engine to render a template (destination directory, template name, context).
\<close>

datatype 'c event = Loaded string | Rendered string string 'c

record 'c state =
  files :: "string \<Rightarrow> node option"
  events :: "'c event list"

text \<open>
  The engine stands for \<^verbatim>\<open>Environment(loader=FileSystemLoader(dest_dir), ...)\<close>: from the
  contents of the search directory, the source text of the template and the context it
  gives the rendered text, or \<open>None\<close> when compiling or rendering raises.
\<close>

type_synonym 'c engine = "dir \<Rightarrow> string \<Rightarrow> 'c \<Rightarrow> string option"

record 'c opts =
  inputJSON :: 'c
  cwd :: string
  srcDir :: string
  destDir :: string
  app :: string

record namespace =
  fullStack :: bool
  template :: "string option"
  app_arg :: "string option"
  input_arg :: "string option"
  destination :: "string option"

subsection \<open>Strings and paths\<close>

definition endswith :: "string \<Rightarrow> string \<Rightarrow> bool" where
  "endswith s suffix = (length suffix \<le> length s \<and> drop (length s - length suffix) s = suffix)"

definition startswith :: "string \<Rightarrow> string \<Rightarrow> bool" where
  "startswith s prefix = (take (length prefix) s = prefix)"

text \<open>\<^verbatim>\<open>fname[:-3]\<close>: all but the last three characters, the empty string for a shorter name.\<close>

definition strip3 :: "string \<Rightarrow> string" where
  "strip3 fname = take (length fname - 3) fname"

text \<open>\<^verbatim>\<open>os.path.join\<close> of \<^verbatim>\<open>posixpath\<close>, one component at a time.\<close>

definition os_path_join :: "string \<Rightarrow> string \<Rightarrow> string" where
  "os_path_join a b =
     (if startswith b ''/'' then b
      else if a = [] \<or> endswith a ''/'' then a @ b
      else a @ ''/'' @ b)"

text \<open>
  The names on a path, between the slashes; an empty name and \<^verbatim>\<open>.\<close> are no step. The path
  \<open>b\<close> is inside \<open>a\<close> when it is \<open>a\<close> itself or leads through \<open>a\<close>. Two directory paths
  are apart when both are absolute, neither has a step \<^verbatim>\<open>..\<close>, and neither is inside the
  other.
\<close>

fun split_slash :: "string \<Rightarrow> string \<Rightarrow> string list" where
  "split_slash acc [] = [acc]"
| "split_slash acc (c # cs) =
     (if c = CHR ''/'' then acc # split_slash [] cs else split_slash (acc @ [c]) cs)"

definition path_names :: "string \<Rightarrow> string list" where
  "path_names p = filter (\<lambda>n. n \<noteq> [] \<and> n \<noteq> ''.'') (split_slash [] p)"

definition inside :: "string \<Rightarrow> string \<Rightarrow> bool" where
  "inside a b = (take (length (path_names a)) (path_names b) = path_names a)"

definition apart :: "string \<Rightarrow> string \<Rightarrow> bool" where
  "apart a b =
     (startswith a ''/'' \<and> startswith b ''/''
      \<and> ''..'' \<notin> set (path_names a) \<and> ''..'' \<notin> set (path_names b)
      \<and> \<not> inside a b \<and> \<not> inside b a)"

text \<open>A missing command-line option is \<^verbatim>\<open>None\<close>, and joining \<^verbatim>\<open>None\<close> raises \<^verbatim>\<open>TypeError\<close>.\<close>

definition os_path_join3 :: "string \<Rightarrow> string option \<Rightarrow> string option \<Rightarrow> error + string" where
  "os_path_join3 a b c =
     (case b of
        None \<Rightarrow> Inl TypeError
      | Some b' \<Rightarrow>
          (case c of
             None \<Rightarrow> Inl TypeError
           | Some c' \<Rightarrow> Inr (os_path_join (os_path_join a b') c')))"

subsection \<open>The file system\<close>

definition os_path_exists :: "'c state \<Rightarrow> string \<Rightarrow> bool" where
  "os_path_exists st p = (files st p \<noteq> None)"

definition listing :: "'c state \<Rightarrow> string \<Rightarrow> dir" where
  "listing st d = (case files st d of Some (Dir es) \<Rightarrow> es | _ \<Rightarrow> [])"

definition os_listdir :: "'c state \<Rightarrow> string \<Rightarrow> error + string list" where
  "os_listdir st d =
     (case files st d of
        None \<Rightarrow> Inl FileNotFoundError
      | Some (File _) \<Rightarrow> Inl NotADirectoryError
      | Some (Dir es) \<Rightarrow> Inr (map fst es))"

text \<open>
  The entry \<open>name\<close> of the directory at \<open>d\<close>, that is the path
  \<^verbatim>\<open>os.path.join(d, name)\<close>. The empty name is the directory itself (the joined path
  ends in a slash).
\<close>

definition entry :: "'c state \<Rightarrow> string \<Rightarrow> string \<Rightarrow> node option" where
  "entry st d name = (if name = [] then files st d else map_of (listing st d) name)"

definition set_listing :: "string \<Rightarrow> dir \<Rightarrow> 'c state \<Rightarrow> 'c state" where
  "set_listing d es st = st\<lparr>files := (files st)(d := Some (Dir es))\<rparr>"

text \<open>\<^verbatim>\<open>with open(path, 'w+') as f: f.write(text)\<close> on the entry \<open>name\<close> of \<open>d\<close>.\<close>

definition write_file :: "string \<Rightarrow> string \<Rightarrow> string \<Rightarrow> 'c state \<Rightarrow> error + 'c state" where
  "write_file d name text st =
     (case files st d of
        None \<Rightarrow> Inl FileNotFoundError
      | Some (File _) \<Rightarrow> Inl NotADirectoryError
      | Some (Dir es) \<Rightarrow>
          (if name = [] then Inl IsADirectoryError
           else (case map_of es name of
                   Some (Dir _) \<Rightarrow> Inl IsADirectoryError
                 | _ \<Rightarrow> Inr (set_listing d (AList.update name (File text) es) st))))"

definition os_remove :: "string \<Rightarrow> string \<Rightarrow> 'c state \<Rightarrow> error + 'c state" where
  "os_remove d name st =
     (case entry st d name of
        None \<Rightarrow> Inl FileNotFoundError
      | Some (Dir _) \<Rightarrow> Inl IsADirectoryError
      | Some (File _) \<Rightarrow> Inr (set_listing d (AList.delete name (listing st d)) st))"

subsection \<open>distutils.dir_util.copy_tree\<close>

text \<open>
  \<^verbatim>\<open>mkpath(dst)\<close>: nothing to do for a directory, a new empty directory where nothing
  stands, \<^verbatim>\<open>DistutilsFileError\<close> where a file is in the way. (The library also fails when
  a file stands at a directory above \<^verbatim>\<open>dst\<close>; the model has no such failure, so a copy
  that fails for this reason only is outside of what the statements about a successful
  run cover.)
\<close>

fun mkpath :: "node option \<Rightarrow> error + dir" where
  "mkpath None = Inr []"
| "mkpath (Some (Dir ds)) = Inr ds"
| "mkpath (Some (File _)) = Inl DistutilsFileError"

text \<open>
  \<^verbatim>\<open>copy_file(src/n, dst/n)\<close>: when \<^verbatim>\<open>dst/n\<close> is a directory the file goes inside it under
  its own name; an existing target is unlinked first, which fails on a directory.
\<close>

definition copy_file :: "string \<Rightarrow> string \<Rightarrow> dir \<Rightarrow> error + dir" where
  "copy_file n c ds =
     (case map_of ds n of
        Some (Dir sub) \<Rightarrow>
          (case map_of sub n of
             Some (Dir _) \<Rightarrow> Inl DistutilsFileError
           | _ \<Rightarrow> Inr (AList.update n (Dir (AList.update n (File c) sub)) ds))
      | _ \<Rightarrow> Inr (AList.update n (File c) ds))"

text \<open>
  The loop \<^verbatim>\<open>for n in names\<close> of \<^verbatim>\<open>copy_tree\<close>, the recursive call for a subdirectory
  included: \<open>copy_names es ds\<close> copies the entries \<open>es\<close> of the source directory into the
  destination directory with entries \<open>ds\<close>. Names that start with \<^verbatim>\<open>.nfs\<close> are skipped.
  An error keeps what was copied before it. The recursion runs over the source tree as it
  stood when the copy began. The library lists each source directory when it reaches it,
  which gives the same names as long as the copy does not write into the source, that
  is, for a source and a destination that are \<open>apart\<close>.
\<close>

fun copy_names :: "dir \<Rightarrow> dir \<Rightarrow> error option \<times> dir" where
  "copy_names [] ds = (None, ds)"
| "copy_names ((n, File c) # rest) ds =
     (if startswith n ''.nfs'' then copy_names rest ds
      else (case copy_file n c ds of
              Inl e \<Rightarrow> (Some e, ds)
            | Inr ds' \<Rightarrow> copy_names rest ds'))"
| "copy_names ((n, Dir es) # rest) ds =
     (if startswith n ''.nfs'' then copy_names rest ds
      else (case mkpath (map_of ds n) of
              Inl e \<Rightarrow> (Some e, ds)
            | Inr sub \<Rightarrow>
                (case copy_names es sub of
                   (Some e, sub') \<Rightarrow> (Some e, AList.update n (Dir sub') ds)
                 | (None, sub') \<Rightarrow> copy_names rest (AList.update n (Dir sub') ds))))"

definition copy_tree :: "string \<Rightarrow> string \<Rightarrow> 'c state \<Rightarrow> error option \<times> 'c state" where
  "copy_tree src dst st =
     (case files st src of
        Some (Dir es) \<Rightarrow>
          (case mkpath (files st dst) of
             Inl e \<Rightarrow> (Some e, st)
           | Inr ds \<Rightarrow>
               (case copy_names es ds of
                  (r, ds') \<Rightarrow> (r, set_listing dst ds' st)))
      | _ \<Rightarrow> (Some DistutilsFileError, st))"

subsection \<open>render_template\<close>

text \<open>
  \<^verbatim>\<open>j2_env.get_template(template_name).render(input_json)\<close>: the loader finds regular files
  only, so a name that is absent or a directory raises \<^verbatim>\<open>TemplateNotFound\<close>.
\<close>

definition get_template_render ::
  "'c engine \<Rightarrow> string \<Rightarrow> string \<Rightarrow> 'c \<Rightarrow> 'c state \<Rightarrow> (error + string) \<times> 'c state" where
  "get_template_render eng dest_dir template_name input_json st =
     (case map_of (listing st dest_dir) template_name of
        Some (File source) \<Rightarrow>
          (case eng (listing st dest_dir) source input_json of
             None \<Rightarrow> (Inl TemplateError, st\<lparr>events := events st @ [Rendered dest_dir template_name input_json]\<rparr>)
           | Some text \<Rightarrow> (Inr text, st\<lparr>events := events st @ [Rendered dest_dir template_name input_json]\<rparr>))
      | _ \<Rightarrow> (Inl TemplateNotFound, st))"

definition render_template ::
  "'c engine \<Rightarrow> string \<Rightarrow> string \<Rightarrow> string \<Rightarrow> 'c \<Rightarrow> 'c state \<Rightarrow> error option \<times> 'c state" where
  "render_template eng dest_dir template_name file_name input_json st =
     (if entry st dest_dir template_name = None then (None, st)
      else (case get_template_render eng dest_dir template_name input_json st of
              (Inl e, st1) \<Rightarrow> (Some e, st1)
            | (Inr rendered_template, st1) \<Rightarrow>
                (case write_file dest_dir file_name rendered_template st1 of
                   Inl e \<Rightarrow> (Some e, st1)
                 | Inr st2 \<Rightarrow>
                     (case os_remove dest_dir template_name st2 of
                        Inl e \<Rightarrow> (Some e, st2)
                      | Inr st3 \<Rightarrow> (None, st3)))))"

subsection \<open>deploy_app\<close>

text \<open>The loop \<^verbatim>\<open>for fname in os.listdir(dest_dir)\<close> over the names listed before it starts.\<close>

fun render_all ::
  "'c engine \<Rightarrow> string \<Rightarrow> 'c \<Rightarrow> string list \<Rightarrow> 'c state \<Rightarrow> error option \<times> 'c state" where
  "render_all eng dest_dir input_json [] st = (None, st)"
| "render_all eng dest_dir input_json (fname # rest) st =
     (if endswith fname ''.j2'' then
        (case render_template eng dest_dir fname (strip3 fname) input_json st of
           (Some e, st') \<Rightarrow> (Some e, st')
         | (None, st') \<Rightarrow> render_all eng dest_dir input_json rest st')
      else render_all eng dest_dir input_json rest st)"

definition deploy_app :: "'c engine \<Rightarrow> 'c opts \<Rightarrow> 'c state \<Rightarrow> error option \<times> 'c state" where
  "deploy_app eng opts st =
     (let src_dir = srcDir opts; dest_dir = destDir opts in
      if \<not> os_path_exists st src_dir then (Some (SystemExit 1), st)
      else (case copy_tree src_dir dest_dir st of
              (Some e, st1) \<Rightarrow> (Some e, st1)
            | (None, st1) \<Rightarrow>
                (case os_listdir st1 dest_dir of
                   Inl e \<Rightarrow> (Some e, st1)
                 | Inr names \<Rightarrow> render_all eng dest_dir (inputJSON opts) names st1)))"

subsection \<open>The command line and the main program\<close>

definition components :: "string list" where
  "components = [''lambda'']"

text \<open>
  A command line, as the options \<^verbatim>\<open>argparse\<close> recognises on it, in order. No
  \<^verbatim>\<open>add_argument\<close> call of the script passes \<^verbatim>\<open>required=True\<close> or a default, so an option
  that is not given is \<^verbatim>\<open>None\<close> in the namespace; \<^verbatim>\<open>fullStack\<close> defaults to \<^verbatim>\<open>False\<close>.
  A later occurrence of an option replaces an earlier one.
\<close>

datatype cli_option =
    OptFullStack
  | OptTemplate string
  | OptApp string
  | OptInput string
  | OptDestination string

fun store :: "namespace \<Rightarrow> cli_option \<Rightarrow> namespace" where
  "store ns OptFullStack = ns\<lparr>fullStack := True\<rparr>"
| "store ns (OptTemplate v) = ns\<lparr>template := Some v\<rparr>"
| "store ns (OptApp v) = ns\<lparr>app_arg := Some v\<rparr>"
| "store ns (OptInput v) = ns\<lparr>input_arg := Some v\<rparr>"
| "store ns (OptDestination v) = ns\<lparr>destination := Some v\<rparr>"

definition parse_args :: "cli_option list \<Rightarrow> namespace" where
  "parse_args argv =
     foldl store
       \<lparr>fullStack = False, template = None, app_arg = None, input_arg = None,
        destination = None\<rparr> argv"

text \<open>
  \<^verbatim>\<open>with open(args.input) as f: config.update(json.load(f))\<close>. The parser \<open>json_load\<close>
  gives the mapping, or \<open>None\<close> when the text is not a JSON object.
\<close>

definition load_input ::
  "(string \<Rightarrow> 'c option) \<Rightarrow> string option \<Rightarrow> 'c state \<Rightarrow> (error + 'c) \<times> 'c state" where
  "load_input json_load path st =
     (case path of
        None \<Rightarrow> (Inl TypeError, st)
      | Some p \<Rightarrow>
          (case files st p of
             None \<Rightarrow> (Inl FileNotFoundError, st)
           | Some (Dir _) \<Rightarrow> (Inl IsADirectoryError, st)
           | Some (File text) \<Rightarrow>
               (case json_load text of
                  None \<Rightarrow> (Inl JSONDecodeError, st\<lparr>events := events st @ [Loaded p]\<rparr>)
                | Some config \<Rightarrow> (Inr config, st\<lparr>events := events st @ [Loaded p]\<rparr>))))"

text \<open>The loop \<^verbatim>\<open>for component in components\<close> of the full-stack branch.\<close>

fun deploy_components ::
  "'c engine \<Rightarrow> string \<Rightarrow> namespace \<Rightarrow> 'c \<Rightarrow> string list \<Rightarrow> 'c state \<Rightarrow> error option \<times> 'c state" where
  "deploy_components eng wd args config [] st = (None, st)"
| "deploy_components eng wd args config (component # rest) st =
     (case os_path_join3 wd (template args) (Some component) of
        Inl e \<Rightarrow> (Some e, st)
      | Inr src \<Rightarrow>
          (case os_path_join3 wd (destination args) (Some component) of
             Inl e \<Rightarrow> (Some e, st)
           | Inr dst \<Rightarrow>
               (case deploy_app eng
                       \<lparr>inputJSON = config, cwd = wd, srcDir = src, destDir = dst,
                        app = component\<rparr> st of
                  (Some e, st') \<Rightarrow> (Some e, st')
                | (None, st') \<Rightarrow> deploy_components eng wd args config rest st')))"

text \<open>
  The module body after \<^verbatim>\<open>parse_args\<close>; \<open>wd\<close> is what \<^verbatim>\<open>os.getcwd()\<close> returns. In the
  single-application branch \<^verbatim>\<open>opts['app']\<close> is \<^verbatim>\<open>args.app\<close>, which may be \<^verbatim>\<open>None\<close>.
\<close>

definition main ::
  "'c engine \<Rightarrow> (string \<Rightarrow> 'c option) \<Rightarrow> string \<Rightarrow> namespace \<Rightarrow> 'c state \<Rightarrow> error option \<times> 'c state" where
  "main eng json_load wd args st =
     (case load_input json_load (input_arg args) st of
        (Inl e, st0) \<Rightarrow> (Some e, st0)
      | (Inr config, st0) \<Rightarrow>
          (if fullStack args then deploy_components eng wd args config components st0
           else (case os_path_join3 wd (template args) (app_arg args) of
                   Inl e \<Rightarrow> (Some e, st0)
                 | Inr src \<Rightarrow>
                     (case os_path_join3 wd (destination args) (app_arg args) of
                        Inl e \<Rightarrow> (Some e, st0)
                      | Inr dst \<Rightarrow>
                          (case app_arg args of
                             None \<Rightarrow> (Some TypeError, st0)
                           | Some a \<Rightarrow>
                               deploy_app eng
                                 \<lparr>inputJSON = config, cwd = wd, srcDir = src, destDir = dst,
                                  app = a\<rparr> st0)))))"

text \<open>
  The status the process ends with: 0 when the module body runs to its end, the argument
  of \<^verbatim>\<open>exit\<close>, and 1 when an exception is not caught.
\<close>

fun exit_status :: "error option \<Rightarrow> nat" where
  "exit_status None = 0"
| "exit_status (Some (SystemExit n)) = n"
| "exit_status (Some _) = 1"

subsection \<open>A fragment of the template language\<close>

text \<open>
  Concrete runs need a concrete engine. \<open>jinja_vars\<close> renders the templates that consist
  of literal text and of expressions \<^verbatim>\<open>{{ name }}\<close> with a plain variable name, against a
  mapping from names to strings, the way Jinja2 does with its default settings: a
  variable that is not in the mapping renders as the empty string, one newline at the
  end of the template is dropped, an expression that is not closed is a syntax error.
  Block tags \<^verbatim>\<open>{% %}\<close>, comments \<^verbatim>\<open>{# #}\<close> and other expressions are outside the fragment;
  \<open>jinja_vars\<close> gives \<open>None\<close> for them.
\<close>

definition is_identifier :: "string \<Rightarrow> bool" where
  "is_identifier s =
     (s \<noteq> [] \<and> list_all (\<lambda>c. c \<in> set ''abcdefghijklmnopqrstuvwxyzABCDEFGHIJKLMNOPQRSTUVWXYZ_0123456789'') s
      \<and> hd s \<notin> set ''0123456789'')"

definition trim :: "string \<Rightarrow> string" where
  "trim s = rev (dropWhile (\<lambda>c. c = CHR '' '') (rev (dropWhile (\<lambda>c. c = CHR '' '') s)))"

fun scan :: "(string \<times> string) list \<Rightarrow> string option \<Rightarrow> string \<Rightarrow> string option" where
  "scan ctx None [] = Some []"
| "scan ctx (Some acc) [] = None"
| "scan ctx None [c] = Some [c]"
| "scan ctx (Some acc) [c] = None"
| "scan ctx None (c # c' # cs) =
     (if c = CHR ''{'' \<and> c' = CHR ''{'' then scan ctx (Some []) cs
      else if c = CHR ''{'' \<and> (c' = CHR ''%'' \<or> c' = CHR ''#'') then None
      else map_option ((#) c) (scan ctx None (c' # cs)))"
| "scan ctx (Some acc) (c # c' # cs) =
     (if c = CHR ''}'' \<and> c' = CHR ''}'' then
        (if is_identifier (trim acc) then
           map_option ((@) (case map_of ctx (trim acc) of None \<Rightarrow> [] | Some v \<Rightarrow> v))
             (scan ctx None cs)
         else None)
      else scan ctx (Some (acc @ [c])) (c' # cs))"

definition jinja_vars :: "(string \<times> string) list engine" where
  "jinja_vars search_dir source ctx =
     scan ctx None (if source \<noteq> [] \<and> last source = CHR 0x0A then butlast source else source)"

subsection \<open>Reading a directory tree\<close>

text \<open>The node at a path of entry names below a directory; the empty path is the directory.\<close>

fun lookup_path :: "dir \<Rightarrow> string list \<Rightarrow> node option" where
  "lookup_path d [] = Some (Dir d)"
| "lookup_path d [n] = map_of d n"
| "lookup_path d (n # p) =
     (case map_of d n of Some (Dir sub) \<Rightarrow> lookup_path sub p | _ \<Rightarrow> None)"

fun is_file :: "node option \<Rightarrow> bool" where
  "is_file (Some (File c)) = True"
| "is_file _ = False"

text \<open>
  A directory tree as a file system has it: no name is empty, and no name occurs twice in
  a directory.
\<close>

fun wf_dir :: "dir \<Rightarrow> bool" where
  "wf_dir [] = True"
| "wf_dir ((n, File c) # rest) = (n \<noteq> [] \<and> n \<notin> fst ` set rest \<and> wf_dir rest)"
| "wf_dir ((n, Dir es) # rest) =
     (n \<noteq> [] \<and> n \<notin> fst ` set rest \<and> wf_dir es \<and> wf_dir rest)"

text \<open>What \<^verbatim>\<open>copy_tree\<close> takes from a source tree: all but the \<^verbatim>\<open>.nfs\<close> entries, at every level.\<close>

fun prune :: "dir \<Rightarrow> dir" where
  "prune [] = []"
| "prune ((n, File c) # rest) =
     (if startswith n ''.nfs'' then prune rest else (n, File c) # prune rest)"
| "prune ((n, Dir es) # rest) =
     (if startswith n ''.nfs'' then prune rest else (n, Dir (prune es)) # prune rest)"

text \<open>The marker stripped from a name directly inside the directory, and nowhere else.\<close>

fun strip_top :: "string list \<Rightarrow> string list" where
  "strip_top [n] = (if endswith n ''.j2'' then [strip3 n] else [n])"
| "strip_top p = p"


text \<open>
  What the loop of \<open>deploy_app\<close> is said to do with the names it selects: it calls
  \<open>render_template\<close> for each of them in turn, and a call that raises ends the run.
\<close>

fun render_each ::
  "'c engine \<Rightarrow> string \<Rightarrow> 'c \<Rightarrow> string list \<Rightarrow> 'c state \<Rightarrow> error option \<times> 'c state" where
  "render_each eng dest_dir input_json [] st = (None, st)"
| "render_each eng dest_dir input_json (fname # rest) st =
     (case render_template eng dest_dir fname (strip3 fname) input_json st of
        (Some e, st') \<Rightarrow> (Some e, st')
      | (None, st') \<Rightarrow> render_each eng dest_dir input_json rest st')"

subsection \<open>Example worlds\<close>

text \<open>
  The concrete runs below use one application: its templates stand at \<^verbatim>\<open>/w/tpl/app\<close>, its
  deployment goes to \<^verbatim>\<open>/w/out/app\<close>.
\<close>

definition demo_ctx :: "(string \<times> string) list" where
  "demo_ctx = [(''name'', ''Ada'')]"

definition demo_opts :: "'c \<Rightarrow> 'c opts" where
  "demo_opts c = \<lparr>inputJSON = c, cwd = ''/w'', srcDir = ''/w/tpl/app'', destDir = ''/w/out/app'', app = ''app''\<rparr>"

definition world :: "dir \<Rightarrow> node option \<Rightarrow> 'c state" where
  "world src dst = \<lparr>files = (\<lambda>p. None)(''/w/tpl/app'' := Some (Dir src), ''/w/out/app'' := dst), events = []\<rparr>"

definition greeting_src :: dir where
  "greeting_src = [(''greeting.txt.j2'', File ''Hello, {{ name }}!'')]"


text \<open>The input file \<^verbatim>\<open>in.json\<close> of the example runs, and a parser that knows this one text.\<close>

definition demo_input :: string where
  \<open>demo_input = ''{"name": "Ada"}''\<close>

definition demo_json_load :: "string \<Rightarrow> (string \<times> string) list option" where
  "demo_json_load s = (if s = demo_input then Some demo_ctx else None)"

definition world_in :: "dir \<Rightarrow> node option \<Rightarrow> 'c state" where
  "world_in src dst =
     \<lparr>files = (\<lambda>p. None)(''/w/tpl/app'' := Some (Dir src), ''/w/out/app'' := dst,
                ''in.json'' := Some (File demo_input)),
      events = []\<rparr>"

subsection \<open>Reading the event list\<close>

fun rendered_with :: "'c \<Rightarrow> 'c event \<Rightarrow> bool" where
  "rendered_with c (Rendered d t c') = (c' = c)"
| "rendered_with c (Loaded p) = False"

fun is_load :: "'c event \<Rightarrow> bool" where
  "is_load (Loaded p) = True"
| "is_load (Rendered d t c) = False"

subsection \<open>The application a command line asks for\<close>

text \<open>
  With \<^verbatim>\<open>--fullStack\<close> the one registered component, otherwise the value of \<^verbatim>\<open>-a/--app\<close>
  (\<open>None\<close> when the option is not given).
\<close>

definition requested :: "namespace \<Rightarrow> string option" where
  "requested args = (if fullStack args then Some ''lambda'' else app_arg args)"


text \<open>Two command lines for the example application, and a template that does not compile.\<close>

definition demo_args :: namespace where
  "demo_args =
     parse_args [OptTemplate ''tpl'', OptApp ''app'', OptInput ''in.json'', OptDestination ''out'']"

definition no_app_args :: namespace where
  "no_app_args = parse_args [OptTemplate ''tpl'', OptInput ''in.json'', OptDestination ''out'']"

definition bad_src :: dir where
  "bad_src = [(''bad.j2'', File ''Hello, {{ name'')]"

text \<open>A request for an application that has no templates, and a full-stack run.\<close>

definition missing_args :: namespace where
  "missing_args =
     parse_args [OptTemplate ''tpl'', OptApp ''missingApp'', OptInput ''in.json'',
                 OptDestination ''out'']"

definition stack_args :: namespace where
  "stack_args =
     parse_args [OptFullStack, OptTemplate ''tpl'', OptInput ''in.json'', OptDestination ''out'']"

definition stack_world :: "dir \<Rightarrow> 'c state" where
  "stack_world src =
     \<lparr>files = (\<lambda>p. None)(''/w/tpl/lambda'' := Some (Dir src),
                ''in.json'' := Some (File demo_input)),
      events = []\<rparr>"

text \<open>
  A source tree with a plain file, a template and a subdirectory that holds a marked file;
  one in which a plain file and a template strip to the same name; and a destination that
  holds a file already.
\<close>

definition plain_src :: dir where
  "plain_src =
     [(''config.yaml'', File ''a: 1''),
      (''greeting.txt.j2'', File ''Hello, {{ name }}!''),
      (''sub'', Dir [(''x.j2'', File ''{{ name }}'')])]"

definition clash_src :: dir where
  "clash_src = [(''config.yaml'', File ''a: 1''), (''config.yaml.j2'', File ''a: {{ name }}'')]"

definition old_dest :: dir where
  "old_dest = [(''old.txt'', File ''kept'')]"



section \<open>Properties\<close>

subsection \<open>Names and entries\<close>

lemma endswith_j2_split: "endswith n ''.j2'' \<Longrightarrow> n = strip3 n @ ''.j2''"
  unfolding endswith_def strip3_def
  by (metis append_take_drop_id length_Cons list.size(3) numeral_3_eq_3)

lemma endswith_j2_nonempty: "endswith n ''.j2'' \<Longrightarrow> n \<noteq> []"
  by (auto simp: endswith_def)

lemma endswith_append_j2 [simp]: "endswith (m @ ''.j2'') ''.j2''"
  by (simp add: endswith_def)

lemma strip3_append_j2 [simp]: "strip3 (m @ ''.j2'') = m"
  by (simp add: strip3_def)


lemma files_set_listing [simp]:
  "files (set_listing d es st) = (files st)(d := Some (Dir es))"
  by (simp add: set_listing_def)

lemma events_set_listing [simp]: "events (set_listing d es st) = events st"
  by (simp add: set_listing_def)

lemma listing_set_listing [simp]: "listing (set_listing d es st) d = es"
  by (simp add: listing_def)

lemma listing_events_upd [simp]: "listing (st\<lparr>events := ev\<rparr>) d = listing st d"
  by (simp add: listing_def)

lemma entry_events_upd [simp]: "entry (st\<lparr>events := ev\<rparr>) d n = entry st d n"
  by (simp add: entry_def)

lemma entry_exists_dir:
  "entry st d n \<noteq> None \<Longrightarrow> n \<noteq> [] \<Longrightarrow> files st d = Some (Dir (listing st d))"
  by (auto simp: entry_def listing_def split: option.splits node.splits)

text \<open>render_template, when the template exists: the three ways it can end.\<close>

lemma render_template_absent:
  "entry st d t = None \<Longrightarrow> render_template eng d t f c st = (None, st)"
  by (simp add: render_template_def)

lemma render_template_ok:
  assumes "render_template eng d t f c st = (None, st')" and "entry st d t \<noteq> None" and "t \<noteq> []"
  shows "\<exists>src text. map_of (listing st d) t = Some (File src)
           \<and> eng (listing st d) src c = Some text
           \<and> f \<noteq> [] \<and> (\<forall>x. map_of (listing st d) f \<noteq> Some (Dir x))
           \<and> files st d = Some (Dir (listing st d))
           \<and> st' = set_listing d (AList.delete t (AList.update f (File text) (listing st d)))
                    (st\<lparr>events := events st @ [Rendered d t c]\<rparr>)"
  using assms
  apply (simp add: render_template_def get_template_render_def write_file_def os_remove_def
      split: option.splits node.splits sum.splits if_splits prod.splits)
  apply (auto simp: entry_def listing_def set_listing_def split: option.splits node.splits if_splits)
  done

lemma render_template_err:
  assumes "render_template eng d t f c st = (Some e, st')" and "t \<noteq> []"
  shows "files st' = files st \<and> entry st d t \<noteq> None"
  using assms
  apply (simp add: render_template_def get_template_render_def write_file_def os_remove_def
      split: option.splits node.splits sum.splits if_splits prod.splits)
  apply (auto simp: entry_def listing_def set_listing_def update_conv' split: option.splits node.splits if_splits)
  done

subsection \<open>What one call of render_template does\<close>

lemma render_template_run:
  assumes "entry st d t = Some (File src)" and "t \<noteq> []"
    and "eng (listing st d) src c = Some text"
    and "f \<noteq> []" and "\<forall>x. map_of (listing st d) f \<noteq> Some (Dir x)"
  shows "render_template eng d t f c st =
           (None, set_listing d (AList.delete t (AList.update f (File text) (listing st d)))
                    (st\<lparr>events := events st @ [Rendered d t c]\<rparr>))"
proof -
  from assms(1,2) have m: "map_of (listing st d) t = Some (File src)"
    by (simp add: entry_def)
  from assms(1,2) have fd: "files st d = Some (Dir (listing st d))"
    by (intro entry_exists_dir) auto
  define st1 where "st1 = st\<lparr>events := events st @ [Rendered d t c]\<rparr>"
  have g: "get_template_render eng d t c st = (Inr text, st1)"
    using m assms(3) by (simp add: get_template_render_def st1_def)
  have fd1: "files st1 d = Some (Dir (listing st d))"
    using fd by (simp add: st1_def)
  define st2 where "st2 = set_listing d (AList.update f (File text) (listing st d)) st1"
  have w: "write_file d f text st1 = Inr st2"
    using fd1 assms(4,5) by (auto simp: write_file_def st2_def split: option.splits node.splits)
  have e2: "entry st2 d t = Some (File (if t = f then text else src))"
    using m assms(2) by (simp add: entry_def st2_def update_conv')
  have r: "os_remove d t st2 = Inr (set_listing d (AList.delete t (listing st2 d)) st2)"
    using e2 by (simp add: os_remove_def)
  have "set_listing d (AList.delete t (listing st2 d)) st2
        = set_listing d (AList.delete t (AList.update f (File text) (listing st d))) st1"
    by (simp add: st2_def set_listing_def listing_def)
  with g w r assms(1) show ?thesis
    by (simp add: render_template_def st1_def)
qed

lemma render_template_dir:
  assumes "entry st d n = Some (Dir es)" and "n \<noteq> []"
  shows "render_template eng d n f c st = (Some TemplateNotFound, st)"
  using assms by (simp add: render_template_def get_template_render_def entry_def)

lemma entry_after_render:
  "m \<noteq> [] \<Longrightarrow> 
   entry (set_listing d (AList.delete t (AList.update f (File text) es)) st) d m
     = (if m = t then None else if m = f then Some (File text) else map_of es m)"
  by (simp add: entry_def delete_conv' update_conv')

lemma render_template_keeps_dir:
  assumes "render_template eng d t f c st = (None, st')"
    and "entry st d m = Some (Dir es)" and "m \<noteq> []" and "t \<noteq> []"
  shows "entry st' d m = Some (Dir es)"
proof (cases "entry st d t = None")
  case True
  with assms show ?thesis by (simp add: render_template_absent)
next
  case False
  from render_template_ok[OF assms(1) False assms(4)] obtain src out where
    h: "map_of (listing st d) t = Some (File src)"
       "\<forall>x. map_of (listing st d) f \<noteq> Some (Dir x)"
       "st' = set_listing d (AList.delete t (AList.update f (File out) (listing st d)))
                  (st\<lparr>events := events st @ [Rendered d t c]\<rparr>)"
    by blast
  from assms(2,3) have "map_of (listing st d) m = Some (Dir es)" by (simp add: entry_def)
  with h assms(3) show ?thesis
    by (auto simp: entry_after_render)
qed

lemma render_all_keeps_dir:
  "render_all eng d c names st = (None, st') \<Longrightarrow> entry st d m = Some (Dir es) \<Longrightarrow> m \<noteq> []
   \<Longrightarrow> entry st' d m = Some (Dir es)"
proof (induction names arbitrary: st)
  case Nil
  then show ?case by simp
next
  case (Cons t names)
  show ?case
  proof (cases "endswith t ''.j2''")
    case False
    with Cons show ?thesis by simp
  next
    case True
    with Cons.prems(1) obtain st1 where
      s: "render_template eng d t (strip3 t) c st = (None, st1)"
         "render_all eng d c names st1 = (None, st')"
      by (auto split: prod.splits option.splits)
    from render_template_keeps_dir[OF s(1) Cons.prems(2,3) endswith_j2_nonempty[OF True]]
      Cons.IH[OF s(2)] Cons.prems(3)
    show ?thesis by simp
  qed
qed

lemma render_all_marked_dir_fails:
  "n \<in> set names \<Longrightarrow> endswith n ''.j2'' \<Longrightarrow> entry st d n = Some (Dir es)
   \<Longrightarrow> fst (render_all eng d c names st) \<noteq> None"
proof (induction names arbitrary: st)
  case Nil
  then show ?case by simp
next
  case (Cons t names)
  have nne: "n \<noteq> []" using Cons.prems(2) by (rule endswith_j2_nonempty)
  show ?case
  proof (cases "t = n")
    case True
    with Cons.prems nne show ?thesis
      by (simp add: render_template_dir)
  next
    case False
    with Cons.prems have mem: "n \<in> set names" by simp
    show ?thesis
    proof (cases "endswith t ''.j2''")
      case False
      with Cons mem show ?thesis by simp
    next
      case True
      show ?thesis
      proof (cases "render_template eng d t (strip3 t) c st")
        case (Pair r st1)
        show ?thesis
        proof (cases r)
          case None
          with Pair have "entry st1 d n = Some (Dir es)"
            using render_template_keeps_dir[OF _ Cons.prems(3) nne endswith_j2_nonempty[OF True]]
            by blast
          from Cons.IH[OF mem Cons.prems(2) this] True Pair None show ?thesis by simp
        next
          case (Some e)
          with True Pair show ?thesis by simp
        qed
      qed
    qed
  qed
qed

lemma render_all_first_marked_dir:
  "n \<in> set names \<Longrightarrow> endswith n ''.j2'' \<Longrightarrow> entry st d n = Some (Dir es)
   \<Longrightarrow> list_all (\<lambda>m. \<not> endswith m ''.j2'') (takeWhile (\<lambda>m. m \<noteq> n) names)
   \<Longrightarrow> render_all eng d c names st = (Some TemplateNotFound, st)"
proof (induction names)
  case Nil
  then show ?case by simp
next
  case (Cons t names)
  have nne: "n \<noteq> []" using Cons.prems(2) by (rule endswith_j2_nonempty)
  show ?case
  proof (cases "t = n")
    case True
    with Cons.prems nne show ?thesis by (simp add: render_template_dir)
  next
    case False
    with Cons show ?thesis by simp
  qed
qed

subsection \<open>deploy_app, unfolded\<close>

lemma copy_tree_ok:
  assumes "copy_tree src dst st = (None, st1)"
  shows "\<exists>es ds ds'. files st src = Some (Dir es) \<and> mkpath (files st dst) = Inr ds
            \<and> copy_names es ds = (None, ds') \<and> st1 = set_listing dst ds' st"
  using assms
  by (auto simp: copy_tree_def split: option.splits node.splits sum.splits prod.splits)

lemma copy_tree_listing:
  "copy_tree src dst st = (None, st1) \<Longrightarrow> files st1 dst = Some (Dir (listing st1 dst))"
  by (drule copy_tree_ok) auto

lemma deploy_app_unfold:
  assumes "os_path_exists st (srcDir opts)"
    and "copy_tree (srcDir opts) (destDir opts) st = (None, st1)"
  shows "deploy_app eng opts st
         = render_all eng (destDir opts) (inputJSON opts) (map fst (listing st1 (destDir opts))) st1"
  using assms copy_tree_listing[OF assms(2)]
  by (simp add: deploy_app_def os_listdir_def Let_def)


subsection \<open>How a run can end\<close>

lemma render_template_error_kind:
  "render_template eng d t f c st = (Some e, st') \<Longrightarrow> e \<noteq> SystemExit k"
  by (auto simp: render_template_def get_template_render_def write_file_def os_remove_def
      split: option.splits node.splits sum.splits if_splits prod.splits)

lemma render_all_error_kind:
  "render_all eng d c names st = (Some e, st') \<Longrightarrow> e \<noteq> SystemExit k"
proof (induction names arbitrary: st)
  case Nil
  then show ?case by simp
next
  case (Cons t names)
  then show ?case
    by (auto split: if_splits prod.splits option.splits dest: render_template_error_kind)
qed

lemma copy_file_error_kind: "copy_file n c ds = Inl e \<Longrightarrow> e = DistutilsFileError"
  by (auto simp: copy_file_def split: option.splits node.splits)

lemma mkpath_error_kind: "mkpath x = Inl e \<Longrightarrow> e = DistutilsFileError"
  by (cases x rule: mkpath.cases) auto

lemma copy_names_error_kind:
  "copy_names es ds = (Some e, ds') \<Longrightarrow> e = DistutilsFileError"
proof (induction es ds arbitrary: ds' rule: copy_names.induct)
  case (1 ds)
  then show ?case by simp
next
  case (2 n c rest ds)
  then show ?case
    by (auto split: if_splits sum.splits dest: copy_file_error_kind)
next
  case (3 n es rest ds)
  then show ?case
    by (auto split: if_splits sum.splits prod.splits option.splits dest: mkpath_error_kind)
qed

lemma copy_tree_error_kind:
  "copy_tree src dst st = (Some e, st') \<Longrightarrow> e = DistutilsFileError"
  by (auto simp: copy_tree_def split: option.splits node.splits sum.splits prod.splits
      dest: mkpath_error_kind copy_names_error_kind)

lemma deploy_app_missing:
  "\<not> os_path_exists st (srcDir opts) \<Longrightarrow> deploy_app eng opts st = (Some (SystemExit 1), st)"
  by (simp add: deploy_app_def)

lemma deploy_app_exit:
  assumes "deploy_app eng opts st = (Some (SystemExit k), st')"
  shows "k = 1 \<and> \<not> os_path_exists st (srcDir opts) \<and> st' = st"
proof (cases "os_path_exists st (srcDir opts)")
  case False
  with assms show ?thesis by (simp add: deploy_app_def)
next
  case True
  with assms have False
    by (auto simp: deploy_app_def Let_def os_listdir_def
        split: prod.splits option.splits sum.splits node.splits
        dest: copy_tree_error_kind render_all_error_kind)
  then show ?thesis ..
qed

subsection \<open>The main program, unfolded\<close>

lemma load_input_files: "load_input jl p st = (r, st0) \<Longrightarrow> files st0 = files st"
  by (auto simp: load_input_def split: option.splits node.splits)

lemma load_input_ok:
  "load_input jl p st = (Inr config, st0) \<Longrightarrow>
   \<exists>path text. p = Some path \<and> files st path = Some (File text) \<and> jl text = Some config
      \<and> st0 = st\<lparr>events := events st @ [Loaded path]\<rparr>"
  by (auto simp: load_input_def split: option.splits node.splits)

lemma load_input_error_kind: "load_input jl p st = (Inl e, st0) \<Longrightarrow> e \<noteq> SystemExit k"
  by (auto simp: load_input_def split: option.splits node.splits)

lemma os_path_join3_error_kind: "os_path_join3 a b c = Inl e \<Longrightarrow> e = TypeError"
  by (auto simp: os_path_join3_def split: option.splits)

lemma os_path_exists_events [simp]:
  "os_path_exists (st\<lparr>events := ev\<rparr>) p = os_path_exists st p"
  by (simp add: os_path_exists_def)

text \<open>The single registered component.\<close>

lemma deploy_components_single:
  "deploy_components eng wd args config [component] st =
     (case os_path_join3 wd (template args) (Some component) of
        Inl e \<Rightarrow> (Some e, st)
      | Inr src \<Rightarrow>
          (case os_path_join3 wd (destination args) (Some component) of
             Inl e \<Rightarrow> (Some e, st)
           | Inr dst \<Rightarrow>
               deploy_app eng \<lparr>inputJSON = config, cwd = wd, srcDir = src, destDir = dst,
                        app = component\<rparr> st))"
  by (auto split: sum.splits prod.splits option.splits)

lemma main_unfold:
  "main eng jl wd args st =
     (case load_input jl (input_arg args) st of
        (Inl e, st0) \<Rightarrow> (Some e, st0)
      | (Inr config, st0) \<Rightarrow>
          (case os_path_join3 wd (template args) (requested args) of
             Inl e \<Rightarrow> (Some e, st0)
           | Inr src \<Rightarrow>
               (case os_path_join3 wd (destination args) (requested args) of
                  Inl e \<Rightarrow> (Some e, st0)
                | Inr dst \<Rightarrow>
                    deploy_app eng \<lparr>inputJSON = config, cwd = wd, srcDir = src, destDir = dst,
                        app = (case requested args of Some a \<Rightarrow> a | None \<Rightarrow> [])\<rparr> st0)))"
  by (auto simp: main_def requested_def components_def deploy_components_single os_path_join3_def
      split: sum.splits prod.splits option.splits)

lemma main_exit:
  assumes "main eng jl wd args st = (Some (SystemExit k), st')"
  shows "k = 1 \<and> files st' = files st
     \<and> (\<exists>config st0 src dst. load_input jl (input_arg args) st = (Inr config, st0)
          \<and> os_path_join3 wd (template args) (requested args) = Inr src
          \<and> os_path_join3 wd (destination args) (requested args) = Inr dst
          \<and> \<not> os_path_exists st src)"
proof -
  obtain r0 st0 where l: "load_input jl (input_arg args) st = (r0, st0)"
    by (cases "load_input jl (input_arg args) st")
  from assms l obtain config where r0: "r0 = Inr config"
    by (cases r0) (auto simp: main_unfold dest: load_input_error_kind)
  from load_input_ok[OF l[unfolded r0]] have st0: "files st0 = files st"
    "\<And>p. os_path_exists st0 p = os_path_exists st p"
    by auto
  from assms l r0 obtain src where s: "os_path_join3 wd (template args) (requested args) = Inr src"
    by (cases "os_path_join3 wd (template args) (requested args)")
      (auto simp: main_unfold dest: os_path_join3_error_kind)
  from assms l r0 s obtain dst where d: "os_path_join3 wd (destination args) (requested args) = Inr dst"
    by (cases "os_path_join3 wd (destination args) (requested args)")
      (auto simp: main_unfold dest: os_path_join3_error_kind)
  from assms l r0 s d have
    "deploy_app eng \<lparr>inputJSON = config, cwd = wd, srcDir = src, destDir = dst,
        app = (case requested args of Some a \<Rightarrow> a | None \<Rightarrow> [])\<rparr> st0 = (Some (SystemExit k), st')"
    by (simp add: main_unfold)
  from deploy_app_exit[OF this] st0 l r0 s d show ?thesis by simp
qed

lemma main_missing_source:
  assumes "load_input jl (input_arg args) st = (Inr config, st0)"
    and "os_path_join3 wd (template args) (requested args) = Inr src"
    and "os_path_join3 wd (destination args) (requested args) = Inr dst"
    and "\<not> os_path_exists st src"
  shows "main eng jl wd args st = (Some (SystemExit 1), st0)"
proof -
  from load_input_ok[OF assms(1)] assms(4) have "\<not> os_path_exists st0 src" by auto
  with assms show ?thesis by (simp add: main_unfold deploy_app_missing)
qed

lemma main_status:
  "exit_status (fst (main eng jl wd args st)) = (if fst (main eng jl wd args st) = None then 0 else 1)"
proof (cases "main eng jl wd args st")
  case (Pair r st')
  show ?thesis
  proof (cases r)
    case None
    with Pair show ?thesis by simp
  next
    case (Some e)
    show ?thesis
    proof (cases e)
      case (SystemExit k)
      with Pair Some main_exit[of eng jl wd args st k st'] show ?thesis by simp
    qed (use Pair Some in simp_all)
  qed
qed

subsection \<open>The event list of a run\<close>

lemma render_template_events:
  "render_template eng d t f c st = (r, st') \<Longrightarrow>
   \<exists>evs. events st' = events st @ evs \<and> list_all (rendered_with c) evs"
  by (auto simp: render_template_def get_template_render_def write_file_def os_remove_def
      split: option.splits node.splits sum.splits if_splits prod.splits)

lemma render_all_events:
  "render_all eng d c names st = (r, st') \<Longrightarrow>
   \<exists>evs. events st' = events st @ evs \<and> list_all (rendered_with c) evs"
proof (induction names arbitrary: st)
  case Nil
  then show ?case by simp
next
  case (Cons t names)
  show ?case
  proof (cases "endswith t ''.j2''")
    case False
    with Cons show ?thesis by simp
  next
    case True
    obtain r1 st1 where s: "render_template eng d t (strip3 t) c st = (r1, st1)"
      by (cases "render_template eng d t (strip3 t) c st")
    from render_template_events[OF s] obtain e1 where
      e1: "events st1 = events st @ e1" "list_all (rendered_with c) e1" by blast
    show ?thesis
    proof (cases r1)
      case (Some e)
      with Cons.prems True s e1 show ?thesis by auto
    next
      case None
      with Cons.prems True s have "render_all eng d c names st1 = (r, st')" by simp
      from Cons.IH[OF this] obtain e2 where
        "events st' = events st1 @ e2" "list_all (rendered_with c) e2" by blast
      with e1 show ?thesis by auto
    qed
  qed
qed

lemma copy_tree_events: "copy_tree src dst st = (r, st1) \<Longrightarrow> events st1 = events st"
  by (auto simp: copy_tree_def split: option.splits node.splits sum.splits prod.splits)

lemma deploy_app_events:
  assumes "deploy_app eng opts st = (r, st')"
  shows "\<exists>evs. events st' = events st @ evs \<and> list_all (rendered_with (inputJSON opts)) evs"
proof (cases "os_path_exists st (srcDir opts)")
  case False
  with assms show ?thesis by (simp add: deploy_app_def)
next
  case True
  obtain r1 st1 where c: "copy_tree (srcDir opts) (destDir opts) st = (r1, st1)"
    by (cases "copy_tree (srcDir opts) (destDir opts) st")
  note e1 = copy_tree_events[OF c]
  show ?thesis
  proof (cases r1)
    case (Some e)
    with assms True c e1 show ?thesis by (auto simp: deploy_app_def Let_def)
  next
    case None
    show ?thesis
    proof (cases "os_listdir st1 (destDir opts)")
      case (Inl e)
      with assms True c None e1 show ?thesis by (auto simp: deploy_app_def Let_def)
    next
      case (Inr names)
      with assms True c None have
        "render_all eng (destDir opts) (inputJSON opts) names st1 = (r, st')"
        by (simp add: deploy_app_def Let_def)
      from render_all_events[OF this] e1 show ?thesis by simp
    qed
  qed
qed

lemma deploy_components_events:
  "deploy_components eng wd args config comps st = (r, st') \<Longrightarrow>
   \<exists>evs. events st' = events st @ evs \<and> list_all (rendered_with config) evs"
proof (induction comps arbitrary: st)
  case Nil
  then show ?case by simp
next
  case (Cons component comps)
  show ?case
  proof (cases "os_path_join3 wd (template args) (Some component)")
    case (Inl e)
    with Cons.prems show ?thesis by auto
  next
    case src: (Inr src)
    show ?thesis
    proof (cases "os_path_join3 wd (destination args) (Some component)")
      case (Inl e)
      with Cons.prems src show ?thesis by auto
    next
      case dst: (Inr dst)
      let ?opts = "\<lparr>inputJSON = config, cwd = wd, srcDir = src, destDir = dst, app = component\<rparr>"
      obtain r1 st1 where d: "deploy_app eng ?opts st = (r1, st1)"
        by (cases "deploy_app eng ?opts st")
      from deploy_app_events[OF d] obtain e1 where
        e1: "events st1 = events st @ e1" "list_all (rendered_with config) e1" by auto
      show ?thesis
      proof (cases r1)
        case (Some e)
        with Cons.prems src dst d e1 show ?thesis by auto
      next
        case None
        with Cons.prems src dst d have
          "deploy_components eng wd args config comps st1 = (r, st')" by simp
        from Cons.IH[OF this] obtain e2 where
          "events st' = events st1 @ e2" "list_all (rendered_with config) e2" by blast
        with e1 show ?thesis by auto
      qed
    qed
  qed
qed

lemma main_events:
  assumes "main eng jl wd args st = (r, st')"
  shows "(r \<noteq> None \<and> events st' = events st)
       \<or> (\<exists>p text. r \<noteq> None \<and> input_arg args = Some p \<and> files st p = Some (File text)
             \<and> jl text = None \<and> events st' = events st @ [Loaded p])
       \<or> (\<exists>p text config rs. input_arg args = Some p \<and> files st p = Some (File text)
             \<and> jl text = Some config \<and> events st' = events st @ Loaded p # rs
             \<and> list_all (rendered_with config) rs)"
proof -
  obtain r0 st0 where l: "load_input jl (input_arg args) st = (r0, st0)"
    by (cases "load_input jl (input_arg args) st")
  show ?thesis
  proof (cases r0)
    case (Inl e)
    with l assms show ?thesis
      by (auto simp: main_def load_input_def split: option.splits node.splits)
  next
    case (Inr config)
    from load_input_ok[OF l[unfolded Inr]] obtain p body where
      p: "input_arg args = Some p" "files st p = Some (File body)" "jl body = Some config"
         "st0 = st\<lparr>events := events st @ [Loaded p]\<rparr>" by blast
    have "\<exists>rs. events st' = events st0 @ rs \<and> list_all (rendered_with config) rs"
    proof (cases "fullStack args")
      case True
      with assms l Inr have
        "deploy_components eng wd args config components st0 = (r, st')"
        by (simp add: main_def)
      then show ?thesis by (rule deploy_components_events)
    next
      case False
      with assms l Inr show ?thesis
        by (auto simp: main_def split: sum.splits option.splits dest: deploy_app_events)
    qed
    with p show ?thesis by auto
  qed
qed

lemma store_keeps_app:
  "\<forall>v. OptApp v \<notin> set argv \<Longrightarrow> app_arg (foldl store ns argv) = app_arg ns"
proof (induction argv arbitrary: ns)
  case Nil
  then show ?case by simp
next
  case (Cons a argv)
  then show ?case by (cases a) auto
qed

lemma store_keeps_fullStack:
  "OptFullStack \<notin> set argv \<Longrightarrow> fullStack (foldl store ns argv) = fullStack ns"
proof (induction argv arbitrary: ns)
  case Nil
  then show ?case by simp
next
  case (Cons a argv)
  then show ?case by (cases a) auto
qed

lemma main_no_app:
  assumes "requested args = None"
  shows "fst (main eng jl wd args st) \<noteq> None \<and> files (snd (main eng jl wd args st)) = files st
       \<and> (\<forall>config st0. load_input jl (input_arg args) st = (Inr config, st0)
            \<longrightarrow> main eng jl wd args st = (Some TypeError, st0))"
proof -
  obtain r0 st0 where l: "load_input jl (input_arg args) st = (r0, st0)"
    by (cases "load_input jl (input_arg args) st")
  have j: "os_path_join3 wd (template args) (requested args) = Inl TypeError"
    using assms by (simp add: os_path_join3_def split: option.splits)
  from l j load_input_files[OF l] show ?thesis
    by (cases r0) (simp_all add: main_unfold)
qed

lemma load_demo:
  "load_input demo_json_load (Some ''in.json'') (world_in src dst)
     = (Inr demo_ctx, (world_in src dst)\<lparr>events := [Loaded ''in.json'']\<rparr>)"
  by (simp add: load_input_def world_in_def demo_json_load_def)

lemma no_app_args_fields:
  "input_arg no_app_args = Some ''in.json''" "app_arg no_app_args = None"
  "fullStack no_app_args = False" "template no_app_args = Some ''tpl''"
  "destination no_app_args = Some ''out''"
  by (simp_all add: no_app_args_def parse_args_def)

lemma demo_args_fields:
  "input_arg demo_args = Some ''in.json''" "app_arg demo_args = Some ''app''"
  "fullStack demo_args = False" "template demo_args = Some ''tpl''"
  "destination demo_args = Some ''out''"
  by (simp_all add: demo_args_def parse_args_def)

lemma missing_args_fields:
  "input_arg missing_args = Some ''in.json''" "app_arg missing_args = Some ''missingApp''"
  "fullStack missing_args = False" "template missing_args = Some ''tpl''"
  "destination missing_args = Some ''out''"
  by (simp_all add: missing_args_def parse_args_def)

lemma join_demo:
  "os_path_join3 ''/w'' (Some ''tpl'') (Some ''app'') = Inr ''/w/tpl/app''"
  "os_path_join3 ''/w'' (Some ''out'') (Some ''app'') = Inr ''/w/out/app''"
  "os_path_join3 ''/w'' (Some ''tpl'') (Some ''missingApp'') = Inr ''/w/tpl/missingApp''"
  "os_path_join3 ''/w'' (Some ''out'') (Some ''missingApp'') = Inr ''/w/out/missingApp''"
  by (simp_all add: os_path_join3_def os_path_join_def startswith_def endswith_def)

lemma jinja_greeting:
  "jinja_vars search ''Hello, {{ name }}!'' demo_ctx = Some ''Hello, Ada!''"
  by (simp add: jinja_vars_def demo_ctx_def is_identifier_def trim_def)

lemma deploy_greeting:
  assumes s: "files st src = Some (Dir greeting_src)" and d: "files st dst = None"
    and e: "\<forall>search. eng search ''Hello, {{ name }}!'' c = Some ''Hello, Ada!''"
  shows "deploy_app eng \<lparr>inputJSON = c, cwd = wd, srcDir = src, destDir = dst, app = a\<rparr> st
     = (None, set_listing dst [(''greeting.txt'', File ''Hello, Ada!'')]
               (st\<lparr>events := events st @ [Rendered dst ''greeting.txt.j2'' c]\<rparr>))"
proof -
  let ?opts = "\<lparr>inputJSON = c, cwd = wd, srcDir = src, destDir = dst, app = a\<rparr>"
  let ?W1 = "set_listing dst greeting_src st"
  have b: "os_path_exists st (srcDir ?opts)"
    using s by (simp add: os_path_exists_def)
  have cn: "copy_names greeting_src [] = (None, greeting_src)"
    by (simp add: greeting_src_def startswith_def copy_file_def)
  have cp: "copy_tree (srcDir ?opts) (destDir ?opts) st = (None, ?W1)"
    using s d cn by (simp add: copy_tree_def)
  have en: "entry ?W1 dst ''greeting.txt.j2'' = Some (File ''Hello, {{ name }}!'')"
    by (simp add: entry_def) (simp add: greeting_src_def)
  have s3: "strip3 ''greeting.txt.j2'' = ''greeting.txt''" by (simp add: strip3_def)
  have mk: "endswith ''greeting.txt.j2'' ''.j2''" by (simp add: endswith_def)
  have nd: "\<forall>x. map_of (listing ?W1 dst) ''greeting.txt'' \<noteq> Some (Dir x)"
    by (simp add: greeting_src_def)
  have up: "AList.delete ''greeting.txt.j2'' (AList.update ''greeting.txt'' (File ''Hello, Ada!'') greeting_src)
       = [(''greeting.txt'', File ''Hello, Ada!'')]"
    by (simp add: greeting_src_def)
  have r: "render_template eng dst ''greeting.txt.j2'' ''greeting.txt'' c ?W1
      = (None, set_listing dst [(''greeting.txt'', File ''Hello, Ada!'')]
               (?W1\<lparr>events := events ?W1 @ [Rendered dst ''greeting.txt.j2'' c]\<rparr>))"
    using render_template_run[OF en, of eng c "''Hello, Ada!''" "''greeting.txt''"] e nd
    by (simp add: up)
  have nm: "map fst (listing ?W1 (destDir ?opts)) = [''greeting.txt.j2'']"
    by (simp add: greeting_src_def)
  have "deploy_app eng ?opts st = (None, set_listing dst [(''greeting.txt'', File ''Hello, Ada!'')]
               (?W1\<lparr>events := events ?W1 @ [Rendered dst ''greeting.txt.j2'' c]\<rparr>))"
    unfolding deploy_app_unfold[OF b cp] nm using r mk by (simp add: s3)
  then show ?thesis by (simp add: set_listing_def)
qed

lemma stack_args_fields:
  "input_arg stack_args = Some ''in.json''" "app_arg stack_args = None"
  "fullStack stack_args = True" "template stack_args = Some ''tpl''"
  "destination stack_args = Some ''out''"
  by (simp_all add: stack_args_def parse_args_def)

lemma join_lambda:
  "os_path_join3 ''/w'' (Some ''tpl'') (Some ''lambda'') = Inr ''/w/tpl/lambda''"
  "os_path_join3 ''/w'' (Some ''out'') (Some ''lambda'') = Inr ''/w/out/lambda''"
  by (simp_all add: os_path_join3_def os_path_join_def startswith_def endswith_def)

lemma load_stack:
  "load_input demo_json_load (Some ''in.json'') (stack_world src)
     = (Inr demo_ctx, (stack_world src)\<lparr>events := [Loaded ''in.json'']\<rparr>)"
  by (simp add: load_input_def stack_world_def demo_json_load_def)

lemma main_stack_greeting:
  "main jinja_vars demo_json_load ''/w'' stack_args (stack_world greeting_src)
   = (None, set_listing ''/w/out/lambda'' [(''greeting.txt'', File ''Hello, Ada!'')]
        ((stack_world greeting_src)\<lparr>events :=
            [Loaded ''in.json'', Rendered ''/w/out/lambda'' ''greeting.txt.j2'' demo_ctx]\<rparr>))"
proof -
  let ?V = "(stack_world greeting_src)\<lparr>events := [Loaded ''in.json'']\<rparr> :: (string \<times> string) list state"
  have r: "requested stack_args = Some ''lambda''"
    by (simp add: requested_def stack_args_fields)
  have s: "files ?V ''/w/tpl/lambda'' = Some (Dir greeting_src)"
    and d: "files ?V ''/w/out/lambda'' = None"
    by (simp_all add: stack_world_def)
  have j: "\<forall>search. jinja_vars search ''Hello, {{ name }}!'' demo_ctx = Some ''Hello, Ada!''"
    by (simp add: jinja_greeting)
  note dg = deploy_greeting[of ?V "''/w/tpl/lambda''" "''/w/out/lambda''" jinja_vars demo_ctx, OF s d j]
  show ?thesis
    by (simp add: main_unfold stack_args_fields r load_stack join_lambda dg)
qed

subsection \<open>What copy_tree leaves in the destination\<close>

lemma update_fresh: "k \<notin> fst ` set al \<Longrightarrow> AList.update k v al = al @ [(k, v)]"
  by (induction al) auto

lemma map_of_fresh: "k \<notin> fst ` set al \<Longrightarrow> map_of al k = None"
  by (simp add: map_of_eq_None_iff)

lemma copy_names_fresh:
  "wf_dir es \<Longrightarrow> \<forall>n\<in>fst ` set es. n \<notin> fst ` set ds \<Longrightarrow> copy_names es ds = (None, ds @ prune es)"
proof (induction es ds rule: copy_names.induct)
  case (1 ds)
  then show ?case by simp
next
  case (2 n c rest ds)
  show ?case
  proof (cases "startswith n ''.nfs''")
    case True
    with 2 show ?thesis by simp
  next
    case False
    from "2.prems" have fresh: "n \<notin> fst ` set ds" by simp
    then have cf: "copy_file n c ds = Inr (ds @ [(n, File c)])"
      by (simp add: copy_file_def map_of_fresh update_fresh)
    from "2.prems" have "wf_dir rest" "\<forall>m\<in>fst ` set rest. m \<notin> fst ` set (ds @ [(n, File c)])"
      by auto
    from "2.IH"(2)[OF False cf this] False cf show ?thesis by simp
  qed
next
  case (3 n es rest ds)
  show ?case
  proof (cases "startswith n ''.nfs''")
    case True
    with 3 show ?thesis by simp
  next
    case False
    from "3.prems" have fresh: "n \<notin> fst ` set ds" by simp
    then have mk: "mkpath (map_of ds n) = Inr []" by (simp add: map_of_fresh)
    from "3.prems" have "wf_dir es" by simp
    from "3.IH"(2)[OF False mk this] have inner: "copy_names es [] = (None, prune es)" by simp
    have up: "AList.update n (Dir (prune es)) ds = ds @ [(n, Dir (prune es))]"
      using fresh by (rule update_fresh)
    from "3.prems" have "wf_dir rest"
      "\<forall>m\<in>fst ` set rest. m \<notin> fst ` set (AList.update n (Dir (prune es)) ds)"
      by (auto simp: up)
    moreover from inner have "(None, prune es) = copy_names es []" by simp
    ultimately have "copy_names rest (AList.update n (Dir (prune es)) ds)
            = (None, AList.update n (Dir (prune es)) ds @ prune rest)"
      using "3.IH"(3)[OF False mk _ refl] by blast
    with False mk inner up show ?thesis by simp
  qed
qed

lemma copy_names_other:
  "copy_names es ds = (r, ds') \<Longrightarrow> \<forall>x. (n, x) \<in> set es \<longrightarrow> startswith n ''.nfs''
   \<Longrightarrow> map_of ds' n = map_of ds n"
proof (induction es ds arbitrary: r ds' rule: copy_names.induct)
  case (1 ds)
  then show ?case by simp
next
  case (2 m c rest ds)
  show ?case
  proof (cases "startswith m ''.nfs''")
    case True
    with 2 show ?thesis by simp
  next
    case False
    with "2.prems" have ne: "m \<noteq> n" by auto
    show ?thesis
    proof (cases "copy_file m c ds")
      case (Inl e)
      with "2.prems" False show ?thesis by simp
    next
      case (Inr ds1)
      then have "map_of ds1 n = map_of ds n"
        using ne by (auto simp: copy_file_def update_conv' split: option.splits node.splits)
      moreover from "2.prems" False Inr have "copy_names rest ds1 = (r, ds')" by simp
      from "2.IH"(2)[OF False Inr this] "2.prems"(2) have "map_of ds' n = map_of ds1 n" by auto
      ultimately show ?thesis by simp
    qed
  qed
next
  case (3 m es rest ds)
  show ?case
  proof (cases "startswith m ''.nfs''")
    case True
    with 3 show ?thesis by simp
  next
    case False
    with "3.prems" have ne: "m \<noteq> n" by auto
    show ?thesis
    proof (cases "mkpath (map_of ds m)")
      case (Inl e)
      with "3.prems" False show ?thesis by simp
    next
      case (Inr sub)
      obtain r1 sub' where cs: "copy_names es sub = (r1, sub')" by (cases "copy_names es sub")
      have u: "map_of (AList.update m (Dir sub') ds) n = map_of ds n"
        using ne by (simp add: update_conv')
      show ?thesis
      proof (cases r1)
        case (Some e)
        with "3.prems" False Inr cs u show ?thesis by auto
      next
        case None
        with "3.prems" False Inr cs have
          "copy_names rest (AList.update m (Dir sub') ds) = (r, ds')" by simp
        from "3.IH"(3)[OF False Inr cs[symmetric] None this] "3.prems"(2) u
        show ?thesis by auto
      qed
    qed
  qed
qed

lemma wf_dir_sub: "wf_dir es \<Longrightarrow> (n, Dir sub) \<in> set es \<Longrightarrow> wf_dir sub"
  by (induction es rule: wf_dir.induct) auto


text \<open>What a successful copy leaves under the name of a source entry.\<close>

lemma copy_names_file:
  "wf_dir es \<Longrightarrow> copy_names es ds = (None, ds') \<Longrightarrow> (n, File c) \<in> set es
   \<Longrightarrow> \<not> startswith n ''.nfs''
   \<Longrightarrow> (case map_of ds n of
          Some (Dir sub) \<Rightarrow> map_of ds' n = Some (Dir (AList.update n (File c) sub))
        | _ \<Rightarrow> map_of ds' n = Some (File c))"
proof (induction es ds arbitrary: ds' rule: copy_names.induct)
  case (1 ds)
  then show ?case by simp
next
  case (2 m c' rest ds)
  show ?case
  proof (cases "startswith m ''.nfs''")
    case True
    with "2.prems" have "(n, File c) \<in> set rest" by auto
    with 2 True show ?thesis by simp
  next
    case False
    from "2.prems"(2) False obtain ds1 where
      cf: "copy_file m c' ds = Inr ds1" and cr: "copy_names rest ds1 = (None, ds')"
      by (auto split: sum.splits)
    show ?thesis
    proof (cases "(n, File c) \<in> set rest")
      case True
      with "2.prems"(1) have "m \<noteq> n" by (auto simp: image_iff)
      with cf have "map_of ds1 n = map_of ds n"
        by (auto simp: copy_file_def update_conv' split: option.splits node.splits)
      with "2.IH"(2)[OF False cf _ cr True "2.prems"(4)] "2.prems"(1) show ?thesis by simp
    next
      case F: False
      with "2.prems"(3) have eq: "m = n" "c' = c" by auto
      from "2.prems"(1) eq have "\<forall>x. (n, x) \<in> set rest \<longrightarrow> startswith n ''.nfs''"
        by (auto simp: image_iff)
      from copy_names_other[OF cr this] have "map_of ds' n = map_of ds1 n" .
      with cf eq show ?thesis
        by (auto simp: copy_file_def update_conv' split: option.splits node.splits)
    qed
  qed
next
  case (3 m es rest ds)
  show ?case
  proof (cases "startswith m ''.nfs''")
    case True
    with "3.prems" have "(n, File c) \<in> set rest" by auto
    with 3 True show ?thesis by simp
  next
    case False
    from "3.prems"(2) False obtain sub sub' where
      mk: "mkpath (map_of ds m) = Inr sub" and cs: "copy_names es sub = (None, sub')"
      and cr: "copy_names rest (AList.update m (Dir sub') ds) = (None, ds')"
      by (auto split: sum.splits prod.splits option.splits)
    from "3.prems"(3) have mem: "(n, File c) \<in> set rest" by auto
    with "3.prems"(1) have "m \<noteq> n" by (auto simp: image_iff)
    then have "map_of (AList.update m (Dir sub') ds) n = map_of ds n"
      by (simp add: update_conv')
    with "3.IH"(3)[OF False mk cs[symmetric] refl _ cr mem "3.prems"(4)] "3.prems"(1)
    show ?thesis by simp
  qed
qed

lemma copy_names_dir:
  "wf_dir es \<Longrightarrow> copy_names es ds = (None, ds') \<Longrightarrow> (n, Dir sub) \<in> set es
   \<Longrightarrow> \<not> startswith n ''.nfs''
   \<Longrightarrow> \<exists>d0 d1. mkpath (map_of ds n) = Inr d0 \<and> copy_names sub d0 = (None, d1)
         \<and> map_of ds' n = Some (Dir d1)"
proof (induction es ds arbitrary: ds' rule: copy_names.induct)
  case (1 ds)
  then show ?case by simp
next
  case (2 m c' rest ds)
  show ?case
  proof (cases "startswith m ''.nfs''")
    case True
    with "2.prems" have "(n, Dir sub) \<in> set rest" by auto
    with 2 True show ?thesis by simp
  next
    case False
    from "2.prems"(2) False obtain ds1 where
      cf: "copy_file m c' ds = Inr ds1" and cr: "copy_names rest ds1 = (None, ds')"
      by (auto split: sum.splits)
    from "2.prems"(3) have mem: "(n, Dir sub) \<in> set rest" by auto
    with "2.prems"(1) have "m \<noteq> n" by (auto simp: image_iff)
    with cf have "map_of ds1 n = map_of ds n"
      by (auto simp: copy_file_def update_conv' split: option.splits node.splits)
    with "2.IH"(2)[OF False cf _ cr mem "2.prems"(4)] "2.prems"(1) show ?thesis by simp
  qed
next
  case (3 m es rest ds)
  show ?case
  proof (cases "startswith m ''.nfs''")
    case True
    with "3.prems" have "(n, Dir sub) \<in> set rest" by auto
    with 3 True show ?thesis by simp
  next
    case False
    from "3.prems"(2) False obtain d0 d1 where
      mk: "mkpath (map_of ds m) = Inr d0" and cs: "copy_names es d0 = (None, d1)"
      and cr: "copy_names rest (AList.update m (Dir d1) ds) = (None, ds')"
      by (auto split: sum.splits prod.splits option.splits)
    show ?thesis
    proof (cases "(n, Dir sub) \<in> set rest")
      case True
      with "3.prems"(1) have "m \<noteq> n" by (auto simp: image_iff)
      then have "map_of (AList.update m (Dir d1) ds) n = map_of ds n"
        by (simp add: update_conv')
      with "3.IH"(3)[OF False mk cs[symmetric] refl _ cr True "3.prems"(4)] "3.prems"(1)
      show ?thesis by simp
    next
      case F: False
      with "3.prems"(3) have eq: "m = n" "es = sub" by auto
      from "3.prems"(1) eq have "\<forall>x. (n, x) \<in> set rest \<longrightarrow> startswith n ''.nfs''"
        by (auto simp: image_iff)
      from copy_names_other[OF cr this] have "map_of ds' n = map_of (AList.update m (Dir d1) ds) n" .
      with mk cs eq show ?thesis by (simp add: update_conv')
    qed
  qed
qed

lemma copy_path:
  "wf_dir es \<Longrightarrow> copy_names es ds = (None, ds') \<Longrightarrow> lookup_path es p = Some (File c)
   \<Longrightarrow> \<not> list_ex (\<lambda>n. startswith n ''.nfs'') p
   \<Longrightarrow> \<forall>x. lookup_path ds p \<noteq> Some (Dir x)
   \<Longrightarrow> lookup_path ds' p = Some (File c)"
proof (induction p arbitrary: es ds ds')
  case Nil
  then show ?case by simp
next
  case (Cons n q)
  show ?case
  proof (cases q)
    case Nil
    with Cons.prems have mem: "(n, File c) \<in> set es" and nd: "\<forall>x. map_of ds n \<noteq> Some (Dir x)"
      and nn: "\<not> startswith n ''.nfs''"
      by (auto dest: map_of_SomeD)
    from copy_names_file[OF Cons.prems(1,2) mem nn] nd Nil show ?thesis
      by (auto split: option.splits node.splits)
  next
    case (Cons m q')
    with Cons.prems(3) obtain sub where s: "map_of es n = Some (Dir sub)"
      and l: "lookup_path sub q = Some (File c)"
      by (auto split: option.splits node.splits)
    from s have mem: "(n, Dir sub) \<in> set es" by (rule map_of_SomeD)
    from Cons.prems(4) have nn: "\<not> startswith n ''.nfs''"
      and nq: "\<not> list_ex (\<lambda>n. startswith n ''.nfs'') q" by simp_all
    from copy_names_dir[OF Cons.prems(1,2) mem nn] obtain d0 d1 where
      mk: "mkpath (map_of ds n) = Inr d0" and cs: "copy_names sub d0 = (None, d1)"
      and r: "map_of ds' n = Some (Dir d1)" by blast
    have "\<forall>x. lookup_path d0 q \<noteq> Some (Dir x)"
    proof (cases "map_of ds n")
      case None
      with mk have "d0 = []" by simp
      with Cons show ?thesis by (cases q') simp_all
    next
      case (Some y)
      with mk have "y = Dir d0" by (cases y) simp_all
      with Some Cons.prems(5) Cons show ?thesis by simp
    qed
    from Cons.IH[OF wf_dir_sub[OF Cons.prems(1) mem] cs l nq this] r Cons
    show ?thesis by simp
  qed
qed

text \<open>One call of the loop body, when the marked name exists.\<close>

lemma render_step:
  assumes "render_template eng d t (strip3 t) c st = (None, st1)" and "endswith t ''.j2''"
  shows "(entry st d t = None \<and> st1 = st)
       \<or> (\<exists>src out. entry st d t = Some (File src) \<and> eng (listing st d) src c = Some out
            \<and> strip3 t \<noteq> [] \<and> (\<forall>x. entry st d (strip3 t) \<noteq> Some (Dir x))
            \<and> (\<forall>m. m \<noteq> [] \<longrightarrow> entry st1 d m
                 = (if m = t then None else if m = strip3 t then Some (File out)
                    else entry st d m))
            \<and> (\<forall>d'. d' \<noteq> d \<longrightarrow> files st1 d' = files st d'))"
proof (cases "entry st d t = None")
  case True
  with assms show ?thesis by (simp add: render_template_absent)
next
  case False
  have tne: "t \<noteq> []" using assms(2) by (rule endswith_j2_nonempty)
  from render_template_ok[OF assms(1) False tne] obtain src out where
    h: "map_of (listing st d) t = Some (File src)"
       "eng (listing st d) src c = Some out"
       "strip3 t \<noteq> []"
       "\<forall>x. map_of (listing st d) (strip3 t) \<noteq> Some (Dir x)"
       "st1 = set_listing d (AList.delete t (AList.update (strip3 t) (File out) (listing st d)))
                  (st\<lparr>events := events st @ [Rendered d t c]\<rparr>)"
    by blast
  have "\<forall>m. m \<noteq> [] \<longrightarrow> entry st1 d m
                 = (if m = t then None else if m = strip3 t then Some (File out)
                    else entry st d m)"
    by (simp add: h(5) entry_after_render) (simp add: entry_def)
  moreover have "\<forall>d'. d' \<noteq> d \<longrightarrow> files st1 d' = files st d'" by (simp add: h(5))
  moreover have "entry st d t = Some (File src)" using h(1) tne by (simp add: entry_def)
  moreover have "\<forall>x. entry st d (strip3 t) \<noteq> Some (Dir x)" using h(3,4) by (simp add: entry_def)
  ultimately show ?thesis using h(2,3) by blast
qed

text \<open>The loop touches a name only through a listed marked name that strips to it.\<close>

lemma render_all_frame:
  "render_all eng d c names st = (None, st') \<Longrightarrow> m \<noteq> []
   \<Longrightarrow> m \<notin> set names \<or> \<not> endswith m ''.j2'' \<Longrightarrow> m @ ''.j2'' \<notin> set names
   \<Longrightarrow> entry st' d m = entry st d m"
proof (induction names arbitrary: st)
  case Nil
  then show ?case by simp
next
  case (Cons t names)
  show ?case
  proof (cases "endswith t ''.j2''")
    case False
    with Cons show ?thesis by auto
  next
    case True
    with Cons.prems(1) obtain st1 where
      s: "render_template eng d t (strip3 t) c st = (None, st1)"
         "render_all eng d c names st1 = (None, st')"
      by (auto split: prod.splits option.splits)
    from Cons.prems(3) True have mt: "m \<noteq> t" by auto
    from Cons.prems(4) endswith_j2_split[OF True] have ms: "m \<noteq> strip3 t" by auto
    from render_step[OF s(1) True] mt ms Cons.prems(2) have "entry st1 d m = entry st d m"
      by auto
    moreover from Cons.IH[OF s(2) Cons.prems(2)] Cons.prems(3,4) have "entry st' d m = entry st1 d m"
      by auto
    ultimately show ?thesis by simp
  qed
qed


lemmas run_defs = deploy_app_def Let_def os_path_exists_def world_def copy_tree_def copy_file_def
  startswith_def set_listing_def os_listdir_def endswith_def strip3_def render_template_def
  get_template_render_def entry_def listing_def write_file_def os_remove_def jinja_vars_def
  is_identifier_def trim_def demo_ctx_def demo_opts_def

lemma run_clash:
  "deploy_app jinja_vars (demo_opts demo_ctx) (world clash_src None)
   = (None, \<lparr>files = (\<lambda>p. None)(''/w/tpl/app'' := Some (Dir clash_src),
                 ''/w/out/app'' := Some (Dir [(''config.yaml'', File ''a: Ada'')])),
             events = [Rendered ''/w/out/app'' ''config.yaml.j2'' demo_ctx]\<rparr>)"
  by (simp add: run_defs clash_src_def)

lemma run_plain:
  "deploy_app jinja_vars (demo_opts demo_ctx) (world plain_src None)
   = (None, \<lparr>files = (\<lambda>p. None)(''/w/tpl/app'' := Some (Dir plain_src),
                 ''/w/out/app'' := Some (Dir [(''config.yaml'', File ''a: 1''),
                    (''sub'', Dir [(''x.j2'', File ''{{ name }}'')]),
                    (''greeting.txt'', File ''Hello, Ada!'')])),
             events = [Rendered ''/w/out/app'' ''greeting.txt.j2'' demo_ctx]\<rparr>)"
  by (simp add: run_defs plain_src_def)

lemma wf_dir_nonempty: "wf_dir es \<Longrightarrow> (n, x) \<in> set es \<Longrightarrow> n \<noteq> []"
  by (induction es rule: wf_dir.induct) auto

lemma mkpath_listing: "mkpath (files st d) = Inr ds \<Longrightarrow> ds = listing st d"
  by (cases "files st d" rule: mkpath.cases) (auto simp: listing_def)

lemma deploy_app_ok:
  assumes "deploy_app eng opts st = (None, st')"
  shows "\<exists>es ds'. files st (srcDir opts) = Some (Dir es)
          \<and> copy_names es (listing st (destDir opts)) = (None, ds')
          \<and> render_all eng (destDir opts) (inputJSON opts) (map fst ds')
               (set_listing (destDir opts) ds' st) = (None, st')"
proof -
  from assms have ex: "os_path_exists st (srcDir opts)"
    by (auto simp: deploy_app_def Let_def split: if_splits)
  obtain r1 st1 where c: "copy_tree (srcDir opts) (destDir opts) st = (r1, st1)"
    by (cases "copy_tree (srcDir opts) (destDir opts) st")
  from assms ex c have r1: "r1 = None"
    by (cases r1) (auto simp: deploy_app_def Let_def)
  from copy_tree_ok[OF c[unfolded r1]] obtain es ds ds' where
    h: "files st (srcDir opts) = Some (Dir es)" "mkpath (files st (destDir opts)) = Inr ds"
       "copy_names es ds = (None, ds')" "st1 = set_listing (destDir opts) ds' st"
    by blast
  from mkpath_listing[OF h(2)] have ds: "ds = listing st (destDir opts)" .
  from deploy_app_unfold[OF ex c[unfolded r1], of eng] assms h(4)
  have "render_all eng (destDir opts) (inputJSON opts) (map fst ds')
               (set_listing (destDir opts) ds' st) = (None, st')"
    by simp
  with h(1,3) ds show ?thesis by blast
qed

lemma copy_names_absent:
  assumes "copy_names es ds = (r, ds')" and "n \<notin> fst ` set es" and "n \<notin> fst ` set ds"
  shows "n \<notin> fst ` set ds'"
proof -
  from assms(2) have "\<forall>x. (n, x) \<in> set es \<longrightarrow> startswith n ''.nfs''"
    by (auto simp: image_iff)
  from copy_names_other[OF assms(1) this] assms(3) have "map_of ds' n = None"
    by (simp add: map_of_fresh)
  then show ?thesis by (simp add: map_of_eq_None_iff)
qed

lemma lookup_path_names:
  "wf_dir es \<Longrightarrow> lookup_path es (n # q) = Some x \<Longrightarrow> n \<noteq> []"
  by (cases q) (auto split: option.splits node.splits dest: map_of_SomeD wf_dir_nonempty)

lemma run_plain_render:
  "render_all jinja_vars ''/w/out/app'' demo_ctx (map fst plain_src)
     (world plain_src (Some (Dir plain_src)))
   = (None, \<lparr>files = (\<lambda>p. None)(''/w/tpl/app'' := Some (Dir plain_src),
                 ''/w/out/app'' := Some (Dir [(''config.yaml'', File ''a: 1''),
                    (''sub'', Dir [(''x.j2'', File ''{{ name }}'')]),
                    (''greeting.txt'', File ''Hello, Ada!'')])),
             events = [Rendered ''/w/out/app'' ''greeting.txt.j2'' demo_ctx]\<rparr>)"
  by (simp add: run_defs plain_src_def)

subsection \<open>What the rendering loop leaves in the destination\<close>

text \<open>
  When no listed marked name strips to a marked name, the loop writes unmarked names only,
  and what it leaves under each name can be read off the listing it started from.
\<close>

lemma render_step_entry:
  assumes "render_template eng d t (strip3 t) c st = (None, st1)" and "endswith t ''.j2''"
    and "m \<noteq> []" and "m \<noteq> t" and "m \<noteq> strip3 t"
  shows "entry st1 d m = entry st d m"
  using render_step[OF assms(1,2)] assms(3,4,5) by auto

lemma render_all_stays_absent:
  "render_all eng d c names st = (None, st')
   \<Longrightarrow> \<forall>t\<in>set names. endswith t ''.j2'' \<longrightarrow> \<not> endswith (strip3 t) ''.j2''
   \<Longrightarrow> endswith m ''.j2'' \<Longrightarrow> entry st d m = None \<Longrightarrow> entry st' d m = None"
proof (induction names arbitrary: st)
  case Nil
  then show ?case by simp
next
  case (Cons t names)
  have mne: "m \<noteq> []" using Cons.prems(3) by (rule endswith_j2_nonempty)
  show ?case
  proof (cases "endswith t ''.j2''")
    case False
    with Cons show ?thesis by auto
  next
    case True
    with Cons.prems(1) obtain st1 where
      s: "render_template eng d t (strip3 t) c st = (None, st1)"
         "render_all eng d c names st1 = (None, st')"
      by (auto split: prod.splits option.splits)
    from Cons.prems(2) True Cons.prems(3) have ms: "m \<noteq> strip3 t" by auto
    from render_step[OF s(1) True] ms mne Cons.prems(4) have "entry st1 d m = None"
      by auto
    from Cons.IH[OF s(2) _ Cons.prems(3) this] Cons.prems(2) show ?thesis by simp
  qed
qed

lemma render_all_marked_gone:
  "render_all eng d c names st = (None, st')
   \<Longrightarrow> \<forall>t\<in>set names. endswith t ''.j2'' \<longrightarrow> \<not> endswith (strip3 t) ''.j2''
   \<Longrightarrow> endswith m ''.j2'' \<Longrightarrow> m \<in> set names \<Longrightarrow> entry st' d m = None"
proof (induction names arbitrary: st)
  case Nil
  then show ?case by simp
next
  case (Cons t names)
  have mne: "m \<noteq> []" using Cons.prems(3) by (rule endswith_j2_nonempty)
  have h: "\<forall>t\<in>set names. endswith t ''.j2'' \<longrightarrow> \<not> endswith (strip3 t) ''.j2''"
    using Cons.prems(2) by simp
  show ?case
  proof (cases "endswith t ''.j2''")
    case False
    with Cons.prems have "m \<in> set names" "render_all eng d c names st = (None, st')" by auto
    from Cons.IH[OF this(2) h Cons.prems(3) this(1)] show ?thesis .
  next
    case True
    with Cons.prems(1) obtain st1 where
      s: "render_template eng d t (strip3 t) c st = (None, st1)"
         "render_all eng d c names st1 = (None, st')"
      by (auto split: prod.splits option.splits)
    show ?thesis
    proof (cases "t = m")
      case True
      with render_step[OF s(1) \<open>endswith t ''.j2''\<close>] mne have "entry st1 d m = None" by auto
      from render_all_stays_absent[OF s(2) h Cons.prems(3) this] show ?thesis .
    next
      case False
      with Cons.prems(4) have "m \<in> set names" by simp
      from Cons.IH[OF s(2) h Cons.prems(3) this] show ?thesis .
    qed
  qed
qed

lemma render_all_unlisted_marked:
  assumes "render_all eng d c names st = (None, st')"
    and "\<forall>t\<in>set names. endswith t ''.j2'' \<longrightarrow> \<not> endswith (strip3 t) ''.j2''"
    and "endswith m ''.j2''" and "m \<notin> set names"
  shows "entry st' d m = entry st d m"
proof -
  have "m @ ''.j2'' \<notin> set names"
  proof
    assume "m @ ''.j2'' \<in> set names"
    with assms(2) have "\<not> endswith (strip3 (m @ ''.j2'')) ''.j2''" by auto
    with assms(3) show False by simp
  qed
  from render_all_frame[OF assms(1) endswith_j2_nonempty[OF assms(3)] _ this] assms(4)
  show ?thesis by simp
qed

lemma render_all_no_template:
  "render_all eng d c names st = (None, st')
   \<Longrightarrow> \<forall>t\<in>set names. endswith t ''.j2'' \<longrightarrow> \<not> endswith (strip3 t) ''.j2''
   \<Longrightarrow> \<not> endswith m ''.j2'' \<Longrightarrow> m \<noteq> [] \<Longrightarrow> entry st d (m @ ''.j2'') = None
   \<Longrightarrow> entry st' d m = entry st d m"
proof (induction names arbitrary: st)
  case Nil
  then show ?case by simp
next
  case (Cons t names)
  have h: "\<forall>t\<in>set names. endswith t ''.j2'' \<longrightarrow> \<not> endswith (strip3 t) ''.j2''"
    using Cons.prems(2) by simp
  show ?case
  proof (cases "endswith t ''.j2''")
    case False
    with Cons.prems have "render_all eng d c names st = (None, st')" by auto
    from Cons.IH[OF this h Cons.prems(3,4,5)] show ?thesis .
  next
    case True
    with Cons.prems(1) obtain st1 where
      s: "render_template eng d t (strip3 t) c st = (None, st1)"
         "render_all eng d c names st1 = (None, st')"
      by (auto split: prod.splits option.splits)
    from Cons.prems(2) True have us: "\<not> endswith (strip3 t) ''.j2''" by simp
    have mj: "m @ ''.j2'' \<noteq> []" by simp
    have "entry st1 d m = entry st d m \<and> entry st1 d (m @ ''.j2'') = None"
    proof (cases "t = m @ ''.j2''")
      case True
      with render_step[OF s(1) \<open>endswith t ''.j2''\<close>] Cons.prems(5) have "st1 = st" by auto
      with Cons.prems(5) show ?thesis by simp
    next
      case False
      with endswith_j2_split[OF True] have ms: "m \<noteq> strip3 t" by auto
      from True Cons.prems(3) have mt: "m \<noteq> t" by auto
      from us endswith_append_j2[of m] have js: "m @ ''.j2'' \<noteq> strip3 t" by metis
      from render_step_entry[OF s(1) True Cons.prems(4) mt ms]
        render_step_entry[OF s(1) True mj _ js] False Cons.prems(5)
      show ?thesis by auto
    qed
    with Cons.IH[OF s(2) h Cons.prems(3,4)] show ?thesis by simp
  qed
qed

lemma render_all_rendered:
  "render_all eng d c names st = (None, st')
   \<Longrightarrow> \<forall>t\<in>set names. endswith t ''.j2'' \<longrightarrow> \<not> endswith (strip3 t) ''.j2''
   \<Longrightarrow> \<not> endswith m ''.j2'' \<Longrightarrow> m \<noteq> [] \<Longrightarrow> m @ ''.j2'' \<in> set names
   \<Longrightarrow> entry st d (m @ ''.j2'') = Some x
   \<Longrightarrow> \<exists>src out search. x = File src \<and> eng search src c = Some out
         \<and> entry st' d m = Some (File out) \<and> (\<forall>y. entry st d m \<noteq> Some (Dir y))"
proof (induction names arbitrary: st)
  case Nil
  then show ?case by simp
next
  case (Cons t names)
  have h: "\<forall>t\<in>set names. endswith t ''.j2'' \<longrightarrow> \<not> endswith (strip3 t) ''.j2''"
    using Cons.prems(2) by simp
  have mj: "m @ ''.j2'' \<noteq> []" by simp
  show ?case
  proof (cases "endswith t ''.j2''")
    case False
    then have "t \<noteq> m @ ''.j2''" by auto
    with False Cons.prems have "render_all eng d c names st = (None, st')"
      "m @ ''.j2'' \<in> set names" by auto
    from Cons.IH[OF this(1) h Cons.prems(3,4) this(2) Cons.prems(6)] show ?thesis .
  next
    case True
    with Cons.prems(1) obtain st1 where
      s: "render_template eng d t (strip3 t) c st = (None, st1)"
         "render_all eng d c names st1 = (None, st')"
      by (auto split: prod.splits option.splits)
    from Cons.prems(2) True have us: "\<not> endswith (strip3 t) ''.j2''" by simp
    show ?thesis
    proof (cases "t = m @ ''.j2''")
      case tm: True
      then have sm: "strip3 t = m" by simp
      from render_step[OF s(1) True] Cons.prems(6) tm obtain src out where
        r: "x = File src" "eng (listing st d) src c = Some out"
           "\<forall>y. entry st d m \<noteq> Some (Dir y)"
           "\<forall>k. k \<noteq> [] \<longrightarrow> entry st1 d k
                 = (if k = t then None else if k = strip3 t then Some (File out)
                    else entry st d k)"
        by (auto simp: sm)
      from r(4) Cons.prems(4) sm tm have e1: "entry st1 d m = Some (File out)"
        and e2: "entry st1 d (m @ ''.j2'') = None" by auto
      from render_all_no_template[OF s(2) h Cons.prems(3,4) e2] e1
      have "entry st' d m = Some (File out)" by simp
      with r(1,2,3) show ?thesis by blast
    next
      case False
      with Cons.prems(5) have mem: "m @ ''.j2'' \<in> set names" by simp
      from False endswith_j2_split[OF True] have ms: "m \<noteq> strip3 t" by auto
      from True Cons.prems(3) have mt: "m \<noteq> t" by auto
      from us endswith_append_j2[of m] have js: "m @ ''.j2'' \<noteq> strip3 t" by metis
      from render_step_entry[OF s(1) True mj _ js] False Cons.prems(6)
      have e: "entry st1 d (m @ ''.j2'') = Some x" by auto
      from render_step_entry[OF s(1) True Cons.prems(4) mt ms]
      have k: "entry st1 d m = entry st d m" .
      from Cons.IH[OF s(2) h Cons.prems(3,4) mem e] k show ?thesis by simp
    qed
  qed
qed

lemma map_of_prune:
  "map_of (prune es) n =
     (if startswith n ''.nfs'' then None
      else (case map_of es n of
              None \<Rightarrow> None
            | Some (File c) \<Rightarrow> Some (File c)
            | Some (Dir sub) \<Rightarrow> Some (Dir (prune sub))))"
  by (induction es rule: prune.induct) auto

lemma prune_names: "fst ` set (prune es) \<subseteq> fst ` set es"
  by (induction es rule: prune.induct) auto

lemma lookup_prune_file:
  "lookup_path (prune es) p = Some (File c)
   \<longleftrightarrow> lookup_path es p = Some (File c) \<and> \<not> list_ex (\<lambda>n. startswith n ''.nfs'') p"
proof (induction p arbitrary: es)
  case Nil
  then show ?case by simp
next
  case (Cons n q)
  show ?case
  proof (cases q)
    case Nil
    then show ?thesis
      by (auto simp: map_of_prune split: option.splits node.splits if_splits)
  next
    case (Cons m q')
    show ?thesis
    proof (cases "map_of es n")
      case None
      with Cons show ?thesis by (simp add: map_of_prune)
    next
      case (Some x)
      show ?thesis
      proof (cases x)
        case (File c')
        with Some Cons show ?thesis by (simp add: map_of_prune)
      next
        case (Dir sub)
        with Some Cons Cons.IH[of sub] show ?thesis
          by (auto simp: map_of_prune)
      qed
    qed
  qed
qed

lemma wf_dir_no_empty_name: "wf_dir es \<Longrightarrow> [] \<notin> fst ` set es"
  using wf_dir_nonempty by fastforce

lemma render_all_empty_name:
  "render_all eng d c names st = (None, st') \<Longrightarrow>
   map_of (listing st' d) [] = map_of (listing st d) []"
proof (induction names arbitrary: st)
  case Nil
  then show ?case by simp
next
  case (Cons t names)
  show ?case
  proof (cases "endswith t ''.j2''")
    case False
    with Cons show ?thesis by auto
  next
    case True
    with Cons.prems(1) obtain st1 where
      s: "render_template eng d t (strip3 t) c st = (None, st1)"
         "render_all eng d c names st1 = (None, st')"
      by (auto split: prod.splits option.splits)
    have tne: "t \<noteq> []" using True by (rule endswith_j2_nonempty)
    have "map_of (listing st1 d) [] = map_of (listing st d) []"
    proof (cases "entry st d t = None")
      case True
      with s(1) show ?thesis by (simp add: render_template_absent)
    next
      case False
      from render_template_ok[OF s(1) False tne] tne show ?thesis
        by (auto simp: delete_conv' update_conv')
    qed
    with Cons.IH[OF s(2)] show ?thesis by simp
  qed
qed

lemma render_all_marked_named:
  "render_all eng d c names st = (None, st')
   \<Longrightarrow> \<forall>t\<in>set names. endswith t ''.j2'' \<longrightarrow> \<not> endswith (strip3 t) ''.j2''
   \<Longrightarrow> endswith m ''.j2'' \<Longrightarrow> m \<in> set names \<Longrightarrow> entry st d m = Some x
   \<Longrightarrow> strip3 m \<noteq> []"
proof (induction names arbitrary: st)
  case Nil
  then show ?case by simp
next
  case (Cons t names)
  have mne: "m \<noteq> []" using Cons.prems(3) by (rule endswith_j2_nonempty)
  have h: "\<forall>t\<in>set names. endswith t ''.j2'' \<longrightarrow> \<not> endswith (strip3 t) ''.j2''"
    using Cons.prems(2) by simp
  show ?case
  proof (cases "endswith t ''.j2''")
    case False
    with Cons.prems have "m \<in> set names" "render_all eng d c names st = (None, st')" by auto
    from Cons.IH[OF this(2) h Cons.prems(3) this(1) Cons.prems(5)] show ?thesis .
  next
    case True
    with Cons.prems(1) obtain st1 where
      s: "render_template eng d t (strip3 t) c st = (None, st1)"
         "render_all eng d c names st1 = (None, st')"
      by (auto split: prod.splits option.splits)
    show ?thesis
    proof (cases "t = m")
      case True
      with render_step[OF s(1) \<open>endswith t ''.j2''\<close>] Cons.prems(5) show ?thesis by auto
    next
      case False
      with Cons.prems(4) have mem: "m \<in> set names" by simp
      from Cons.prems(2,3) True have "m \<noteq> strip3 t" by auto
      from render_step_entry[OF s(1) True mne _ this] False Cons.prems(5)
      have "entry st1 d m = Some x" by auto
      from Cons.IH[OF s(2) h Cons.prems(3) mem this] show ?thesis .
    qed
  qed
qed

text \<open>
  The destination after the loop, name by name, when the loop ran over the names of the
  listing \<open>C\<close> it started from, no name of \<open>C\<close> is empty and no marked name of \<open>C\<close> strips to
  a marked name.
\<close>

lemma after_loop_marked:
  assumes "render_all eng d c (map fst C) st1 = (None, st')" and "listing st1 d = C"
    and "\<forall>t\<in>fst ` set C. endswith t ''.j2'' \<longrightarrow> \<not> endswith (strip3 t) ''.j2''"
    and "endswith m ''.j2''"
  shows "map_of (listing st' d) m = None"
proof -
  have mne: "m \<noteq> []" using assms(4) by (rule endswith_j2_nonempty)
  have h: "\<forall>t\<in>set (map fst C). endswith t ''.j2'' \<longrightarrow> \<not> endswith (strip3 t) ''.j2''"
    using assms(3) by simp
  have "entry st' d m = None"
  proof (cases "m \<in> set (map fst C)")
    case True
    from render_all_marked_gone[OF assms(1) h assms(4) True] show ?thesis .
  next
    case False
    then have "map_of C m = None" by (simp add: map_of_eq_None_iff)
    with render_all_unlisted_marked[OF assms(1) h assms(4) False] assms(2) mne
    show ?thesis by (simp add: entry_def)
  qed
  with mne show ?thesis by (simp add: entry_def)
qed

lemma after_loop_rendered:
  assumes "render_all eng d c (map fst C) st1 = (None, st')" and "listing st1 d = C"
    and "\<forall>t\<in>fst ` set C. endswith t ''.j2'' \<longrightarrow> \<not> endswith (strip3 t) ''.j2''"
    and "\<not> endswith m ''.j2''" and "map_of C (m @ ''.j2'') = Some x"
  shows "\<exists>src out search. x = File src \<and> eng search src c = Some out
           \<and> map_of (listing st' d) m = Some (File out) \<and> (\<forall>y. map_of C m \<noteq> Some (Dir y))
           \<and> m \<noteq> []"
proof -
  have h: "\<forall>t\<in>set (map fst C). endswith t ''.j2'' \<longrightarrow> \<not> endswith (strip3 t) ''.j2''"
    using assms(3) by simp
  have mem: "m @ ''.j2'' \<in> set (map fst C)"
    using assms(5) by (auto dest: map_of_SomeD intro: rev_image_eqI)
  have e: "entry st1 d (m @ ''.j2'') = Some x"
    using assms(2,5) by (simp add: entry_def)
  from render_all_marked_named[OF assms(1) h endswith_append_j2 mem e] have mne: "m \<noteq> []"
    by simp
  from render_all_rendered[OF assms(1) h assms(4) mne mem e] assms(2) mne show ?thesis
    by (simp add: entry_def)
qed

lemma after_loop_plain:
  assumes "render_all eng d c (map fst C) st1 = (None, st')" and "listing st1 d = C"
    and "\<forall>t\<in>fst ` set C. endswith t ''.j2'' \<longrightarrow> \<not> endswith (strip3 t) ''.j2''"
    and "\<not> endswith m ''.j2''" and "map_of C (m @ ''.j2'') = None"
  shows "map_of (listing st' d) m = map_of C m"
proof (cases "m = []")
  case True
  with render_all_empty_name[OF assms(1)] assms(2) show ?thesis by simp
next
  case False
  have h: "\<forall>t\<in>set (map fst C). endswith t ''.j2'' \<longrightarrow> \<not> endswith (strip3 t) ''.j2''"
    using assms(3) by simp
  have e: "entry st1 d (m @ ''.j2'') = None"
    using assms(2,5) by (simp add: entry_def)
  from render_all_no_template[OF assms(1) h assms(4) False e] assms(2) False show ?thesis
    by (simp add: entry_def)
qed

lemma after_loop_dir:
  assumes "render_all eng d c (map fst C) st1 = (None, st')" and "listing st1 d = C"
    and "\<forall>t\<in>fst ` set C. endswith t ''.j2'' \<longrightarrow> \<not> endswith (strip3 t) ''.j2''"
  shows "map_of (listing st' d) m = Some (Dir sub) \<longleftrightarrow> map_of C m = Some (Dir sub)"
proof (cases "endswith m ''.j2''")
  case True
  have mne: "m \<noteq> []" using True by (rule endswith_j2_nonempty)
  from after_loop_marked[OF assms True] have n: "map_of (listing st' d) m = None" .
  have "map_of C m \<noteq> Some (Dir sub)"
  proof
    assume a: "map_of C m = Some (Dir sub)"
    then have "entry st1 d m = Some (Dir sub)" using assms(2) mne by (simp add: entry_def)
    moreover from a have "m \<in> set (map fst C)" by (auto dest: map_of_SomeD intro: rev_image_eqI)
    ultimately have "fst (render_all eng d c (map fst C) st1) \<noteq> None"
      using True by (intro render_all_marked_dir_fails)
    with assms(1) show False by simp
  qed
  with n show ?thesis by simp
next
  case False
  show ?thesis
  proof (cases "map_of C (m @ ''.j2'')")
    case None
    from after_loop_plain[OF assms False None] show ?thesis by simp
  next
    case (Some x)
    from after_loop_rendered[OF assms False Some] show ?thesis by auto
  qed
qed

lemma after_loop_nested:
  assumes "render_all eng d c (map fst C) st1 = (None, st')" and "listing st1 d = C"
    and "\<forall>t\<in>fst ` set C. endswith t ''.j2'' \<longrightarrow> \<not> endswith (strip3 t) ''.j2''"
    and "q \<noteq> []"
  shows "lookup_path (listing st' d) (m # q) = lookup_path C (m # q)"
proof -
  obtain k q' where q: "q = k # q'" using assms(4) by (cases q) auto
  note dir = after_loop_dir[OF assms(1,2,3), of m]
  show ?thesis
  proof (cases "\<exists>sub. map_of C m = Some (Dir sub)")
    case True
    then obtain sub where "map_of C m = Some (Dir sub)" by blast
    with dir[of sub] q show ?thesis by simp
  next
    case False
    with dir have "\<forall>sub. map_of (listing st' d) m \<noteq> Some (Dir sub)" by simp
    with False q show ?thesis
      by (auto split: option.splits node.splits)
  qed
qed

lemma is_file_iff: "is_file x \<longleftrightarrow> (\<exists>c. x = Some (File c))"
  by (cases x rule: is_file.cases) auto

lemma strip_top_length: "length (strip_top q) = length q"
  by (cases q rule: strip_top.cases) auto

lemma strip_top_long: "strip_top (m # k # q) = m # k # q"
  by simp

lemma strip_top_eq_single:
  "strip_top q = [m] \<longleftrightarrow> (\<exists>n. q = [n] \<and> (if endswith n ''.j2'' then strip3 n else n) = m)"
  by (cases q rule: strip_top.cases) auto

lemma strip_top_eq_long: "strip_top q = m # k # q' \<longleftrightarrow> q = m # k # q'"
  by (cases q rule: strip_top.cases) auto

lemma after_loop_file_set:
  assumes ra: "render_all eng d c (map fst C) st1 = (None, st')" and l: "listing st1 d = C"
    and h: "\<forall>t\<in>fst ` set C. endswith t ''.j2'' \<longrightarrow> \<not> endswith (strip3 t) ''.j2''"
    and ne: "[] \<notin> fst ` set C"
  shows "is_file (lookup_path (listing st' d) p)
         \<longleftrightarrow> (\<exists>q. is_file (lookup_path C q) \<and> strip_top q = p)"
proof (cases p)
  case Nil
  have "\<not> (\<exists>q. is_file (lookup_path C q) \<and> strip_top q = [])"
  proof
    assume "\<exists>q. is_file (lookup_path C q) \<and> strip_top q = []"
    then obtain q where q: "is_file (lookup_path C q)" "strip_top q = []" by blast
    from q(2) strip_top_length[of q] have "q = []" by simp
    with q(1) show False by simp
  qed
  with Nil show ?thesis by simp
next
  case (Cons m p')
  show ?thesis
  proof (cases p')
    case (Cons k q')
    with \<open>p = m # p'\<close> after_loop_nested[OF ra l h, of "k # q'" m] show ?thesis
      by (auto simp: strip_top_eq_long)
  next
    case Nil
    let ?D = "listing st' d"
    have rhs: "(\<exists>q. is_file (lookup_path C q) \<and> strip_top q = [m])
        \<longleftrightarrow> (\<exists>n. is_file (map_of C n) \<and> (if endswith n ''.j2'' then strip3 n else n) = m)"
    proof
      assume "\<exists>q. is_file (lookup_path C q) \<and> strip_top q = [m]"
      then obtain q where q: "is_file (lookup_path C q)" "strip_top q = [m]" by blast
      from q(2) obtain n where n: "q = [n]" "(if endswith n ''.j2'' then strip3 n else n) = m"
        unfolding strip_top_eq_single by blast
      from q(1) n(1) have "is_file (map_of C n)" by simp
      with n(2) show "\<exists>n. is_file (map_of C n) \<and> (if endswith n ''.j2'' then strip3 n else n) = m"
        by blast
    next
      assume "\<exists>n. is_file (map_of C n) \<and> (if endswith n ''.j2'' then strip3 n else n) = m"
      then obtain n where n: "is_file (map_of C n)"
        "(if endswith n ''.j2'' then strip3 n else n) = m" by blast
      from n(1) have "is_file (lookup_path C [n])" by simp
      moreover from n(2) have "strip_top [n] = [m]" by (auto split: if_splits)
      ultimately show "\<exists>q. is_file (lookup_path C q) \<and> strip_top q = [m]" by blast
    qed
    have "is_file (map_of ?D m)
        \<longleftrightarrow> (\<exists>n. is_file (map_of C n) \<and> (if endswith n ''.j2'' then strip3 n else n) = m)"
    proof (cases "endswith m ''.j2''")
      case True
      from after_loop_marked[OF ra l h True] have L: "\<not> is_file (map_of ?D m)" by simp
      have "\<not> (\<exists>n. is_file (map_of C n) \<and> (if endswith n ''.j2'' then strip3 n else n) = m)"
      proof
        assume "\<exists>n. is_file (map_of C n) \<and> (if endswith n ''.j2'' then strip3 n else n) = m"
        then obtain n where n: "is_file (map_of C n)"
          "(if endswith n ''.j2'' then strip3 n else n) = m" by blast
        from n(1) have mem: "n \<in> fst ` set C"
          by (auto simp: is_file_iff dest: map_of_SomeD intro: rev_image_eqI)
        show False
        proof (cases "endswith n ''.j2''")
          case True
          with n(2) h mem \<open>endswith m ''.j2''\<close> show False by auto
        next
          case False
          with n(2) \<open>endswith m ''.j2''\<close> show False by simp
        qed
      qed
      with L show ?thesis by simp
    next
      case False
      show ?thesis
      proof (cases "map_of C (m @ ''.j2'')")
        case (Some x)
        from after_loop_rendered[OF ra l h False Some] obtain src out where
          x: "x = File src" and o: "map_of ?D m = Some (File out)" by blast
        from Some x have "is_file (map_of C (m @ ''.j2''))" by simp
        then have "\<exists>n. is_file (map_of C n) \<and> (if endswith n ''.j2'' then strip3 n else n) = m"
          by (intro exI[of _ "m @ ''.j2''"]) simp
        with o show ?thesis by simp
      next
        case None
        from after_loop_plain[OF ra l h False None] have e: "map_of ?D m = map_of C m" .
        have "(\<exists>n. is_file (map_of C n) \<and> (if endswith n ''.j2'' then strip3 n else n) = m)
              \<longleftrightarrow> is_file (map_of C m)"
        proof
          assume "is_file (map_of C m)"
          with False show "\<exists>n. is_file (map_of C n) \<and> (if endswith n ''.j2'' then strip3 n else n) = m"
            by (intro exI[of _ m]) simp
        next
          assume "\<exists>n. is_file (map_of C n) \<and> (if endswith n ''.j2'' then strip3 n else n) = m"
          then obtain n where n: "is_file (map_of C n)"
            "(if endswith n ''.j2'' then strip3 n else n) = m" by blast
          show "is_file (map_of C m)"
          proof (cases "endswith n ''.j2''")
            case True
            with n(2) endswith_j2_split[OF True] have "n = m @ ''.j2''" by simp
            with n(1) None show ?thesis by simp
          next
            case False
            with n show ?thesis by simp
          qed
        qed
        with e show ?thesis by simp
      qed
    qed
    with rhs Nil \<open>p = m # p'\<close> show ?thesis by simp
  qed
qed

lemma run_old:
  "deploy_app jinja_vars (demo_opts demo_ctx) (world greeting_src (Some (Dir old_dest)))
   = (None, \<lparr>files = (\<lambda>p. None)(''/w/tpl/app'' := Some (Dir greeting_src),
                 ''/w/out/app'' := Some (Dir [(''old.txt'', File ''kept''),
                    (''greeting.txt'', File ''Hello, Ada!'')])),
             events = [Rendered ''/w/out/app'' ''greeting.txt.j2'' demo_ctx]\<rparr>)"
  by (simp add: run_defs greeting_src_def old_dest_def)

lemma greeting_src_files:
  assumes "is_file (lookup_path greeting_src q)"
  shows "q = [''greeting.txt.j2'']"
proof (cases q)
  case Nil
  with assms show ?thesis by simp
next
  case (Cons n q')
  show ?thesis
  proof (cases q')
    case Nil
    with Cons assms show ?thesis
      by (auto simp: greeting_src_def split: if_splits)
  next
    case (Cons k q'')
    with \<open>q = n # q'\<close> assms show ?thesis
      by (auto simp: greeting_src_def split: if_splits)
  qed
qed


















lemma apart_demo: "apart ''/w/tpl/app'' ''/w/out/app''"
  by (simp add: apart_def inside_def path_names_def startswith_def)

lemma render_template_frame:
  assumes "render_template eng d t f c st = (r, st1)" and "t \<noteq> []"
    and "m \<noteq> []" and "m \<noteq> t" and "m \<noteq> f"
  shows "entry st1 d m = entry st d m"
proof (cases r)
  case (Some e)
  with assms(1) have "render_template eng d t f c st = (Some e, st1)" by simp
  from render_template_err[OF this assms(2)] have "files st1 = files st" by simp
  then show ?thesis by (simp add: entry_def listing_def)
next
  case None
  with assms(1) have r: "render_template eng d t f c st = (None, st1)" by simp
  show ?thesis
  proof (cases "entry st d t = None")
    case True
    with r show ?thesis by (simp add: render_template_absent)
  next
    case False
    from render_template_ok[OF r False assms(2)] obtain src out where
      h: "st1 = set_listing d (AList.delete t (AList.update f (File out) (listing st d)))
                  (st\<lparr>events := events st @ [Rendered d t c]\<rparr>)"
      by blast
    show ?thesis using assms(3,4,5)
      by (simp add: h entry_after_render) (simp add: entry_def)
  qed
qed

lemma render_all_frame_any:
  "render_all eng d c names st = (r, st') \<Longrightarrow> m \<noteq> [] \<Longrightarrow> \<not> endswith m ''.j2''
   \<Longrightarrow> m @ ''.j2'' \<notin> set names \<Longrightarrow> entry st' d m = entry st d m"
proof (induction names arbitrary: st)
  case Nil
  then show ?case by simp
next
  case (Cons t names)
  show ?case
  proof (cases "endswith t ''.j2''")
    case False
    with Cons show ?thesis by auto
  next
    case True
    have tne: "t \<noteq> []" using True by (rule endswith_j2_nonempty)
    from Cons.prems(3) True have mt: "m \<noteq> t" by auto
    from Cons.prems(4) endswith_j2_split[OF True] have ms: "m \<noteq> strip3 t" by auto
    obtain r1 st1 where s: "render_template eng d t (strip3 t) c st = (r1, st1)"
      by (cases "render_template eng d t (strip3 t) c st") blast
    from render_template_frame[OF s tne Cons.prems(2) mt ms]
    have e1: "entry st1 d m = entry st d m" .
    show ?thesis
    proof (cases r1)
      case (Some e)
      with s True Cons.prems(1) have "st' = st1" by simp
      with e1 show ?thesis by simp
    next
      case None
      with s True Cons.prems(1) have "render_all eng d c names st1 = (r, st')" by simp
      from Cons.IH[OF this Cons.prems(2,3)] Cons.prems(4) e1 show ?thesis by simp
    qed
  qed
qed

lemma render_all_filter:
  "render_all eng d c names st = render_each eng d c (filter (\<lambda>m. endswith m ''.j2'') names) st"
  by (induction names arbitrary: st) (auto split: prod.splits option.splits)




text \<open>
  Claim C1, as amended. Let the source be a well-formed tree in which no name directly
  inside it carries the marker twice, let the destination be absent or empty before the
  run, and let source and destination be apart (neither directory inside the other).
  After a successful run of \<open>deploy_app\<close> the files of the destination are exactly the
  files of the source that \<^verbatim>\<open>copy_tree\<close> copies (those with no \<^verbatim>\<open>.nfs\<close> name on their
  path), with \<^verbatim>\<open>.j2\<close> stripped from the names directly inside the directory and from no
  other name; below the top level every file keeps its name, marked or not, and its
  contents.
\<close>

theorem fresh_destination_file_set:
  "deploy_app eng opts st = (None, st') \<and> files st (srcDir opts) = Some (Dir src)
   \<and> wf_dir src \<and> listing st (destDir opts) = [] \<and> apart (srcDir opts) (destDir opts)
   \<and> (\<forall>n\<in>fst ` set src. endswith n ''.j2'' \<longrightarrow> \<not> endswith (strip3 n) ''.j2'')
   \<longrightarrow> (\<forall>p. is_file (lookup_path (listing st' (destDir opts)) p)
          \<longleftrightarrow> (\<exists>q. is_file (lookup_path src q) \<and> \<not> list_ex (\<lambda>n. startswith n ''.nfs'') q
                   \<and> strip_top q = p))
     \<and> (\<forall>n q content. q \<noteq> [] \<longrightarrow>
          (lookup_path (listing st' (destDir opts)) (n # q) = Some (File content)
           \<longleftrightarrow> lookup_path src (n # q) = Some (File content)
               \<and> \<not> list_ex (\<lambda>n. startswith n ''.nfs'') (n # q)))"
proof
  assume a: "deploy_app eng opts st = (None, st') \<and> files st (srcDir opts) = Some (Dir src)
   \<and> wf_dir src \<and> listing st (destDir opts) = [] \<and> apart (srcDir opts) (destDir opts)
   \<and> (\<forall>n\<in>fst ` set src. endswith n ''.j2'' \<longrightarrow> \<not> endswith (strip3 n) ''.j2'')"
  let ?d = "destDir opts"
  let ?C = "prune src"
  from a have wf: "wf_dir src" by simp
  from a deploy_app_ok[of eng opts st st'] obtain ds' where
    cn: "copy_names src [] = (None, ds')"
    and ra0: "render_all eng ?d (inputJSON opts) (map fst ds') (set_listing ?d ds' st) = (None, st')"
    by auto
  from copy_names_fresh[OF wf, of "[]"] cn have ds': "ds' = ?C" by simp
  let ?st1 = "set_listing ?d ?C st"
  from ra0 ds' have ra: "render_all eng ?d (inputJSON opts) (map fst ?C) ?st1 = (None, st')"
    by simp
  have l: "listing ?st1 ?d = ?C" by simp
  from a prune_names[of src] have h:
    "\<forall>t\<in>fst ` set ?C. endswith t ''.j2'' \<longrightarrow> \<not> endswith (strip3 t) ''.j2''" by blast
  from wf_dir_no_empty_name[OF wf] prune_names[of src] have ne: "[] \<notin> fst ` set ?C" by blast
  have pf: "\<And>q. is_file (lookup_path ?C q)
        \<longleftrightarrow> is_file (lookup_path src q) \<and> \<not> list_ex (\<lambda>n. startswith n ''.nfs'') q"
    by (auto simp: is_file_iff lookup_prune_file)
  have one: "\<forall>p. is_file (lookup_path (listing st' ?d) p)
          \<longleftrightarrow> (\<exists>q. is_file (lookup_path src q) \<and> \<not> list_ex (\<lambda>n. startswith n ''.nfs'') q
                   \<and> strip_top q = p)"
    using after_loop_file_set[OF ra l h ne] by (simp add: pf)
  have two: "\<forall>n q content. q \<noteq> [] \<longrightarrow>
          (lookup_path (listing st' ?d) (n # q) = Some (File content)
           \<longleftrightarrow> lookup_path src (n # q) = Some (File content)
               \<and> \<not> list_ex (\<lambda>n. startswith n ''.nfs'') (n # q))"
    using after_loop_nested[OF ra l h] lookup_prune_file[of src] by simp
  from one two show "(\<forall>p. is_file (lookup_path (listing st' ?d) p)
          \<longleftrightarrow> (\<exists>q. is_file (lookup_path src q) \<and> \<not> list_ex (\<lambda>n. startswith n ''.nfs'') q
                   \<and> strip_top q = p))
     \<and> (\<forall>n q content. q \<noteq> [] \<longrightarrow>
          (lookup_path (listing st' ?d) (n # q) = Some (File content)
           \<longleftrightarrow> lookup_path src (n # q) = Some (File content)
               \<and> \<not> list_ex (\<lambda>n. startswith n ''.nfs'') (n # q)))"
    by blast
qed

theorem fresh_destination_file_set_witness:
  "wf_dir plain_src
   \<and> apart ''/w/tpl/app'' ''/w/out/app''
   \<and> fst (deploy_app jinja_vars (demo_opts demo_ctx) (world plain_src None)) = None
   \<and> (\<forall>p. is_file (lookup_path (listing (snd (deploy_app jinja_vars (demo_opts demo_ctx)
             (world plain_src None))) ''/w/out/app'') p)
          \<longleftrightarrow> (\<exists>q. is_file (lookup_path plain_src q)
                   \<and> \<not> list_ex (\<lambda>n. startswith n ''.nfs'') q \<and> strip_top q = p))
   \<and> (lookup_path (listing (snd (deploy_app jinja_vars (demo_opts demo_ctx)
             (world plain_src None))) ''/w/out/app'') [''sub'', ''x.j2''] = Some (File ''{{ name }}'')
        \<longleftrightarrow> lookup_path plain_src [''sub'', ''x.j2''] = Some (File ''{{ name }}'')
             \<and> \<not> list_ex (\<lambda>n. startswith n ''.nfs'') [''sub'', ''x.j2''])
   \<and> lookup_path plain_src [''sub'', ''x.j2''] = Some (File ''{{ name }}'')"
proof -
  let ?W = "world plain_src None :: (string \<times> string) list state"
  let ?opts = "demo_opts demo_ctx"
  let ?r = "deploy_app jinja_vars ?opts ?W"
  have wf: "wf_dir plain_src" by (simp add: plain_src_def)
  have fr: "fst ?r = None" by (simp add: run_plain)
  then have ok: "?r = (None, snd ?r)" by (metis prod.collapse)
  have s: "files ?W (srcDir ?opts) = Some (Dir plain_src)"
    and d: "listing ?W (destDir ?opts) = []" and dd: "destDir ?opts = ''/w/out/app''"
    by (simp_all add: world_def demo_opts_def listing_def)
  have h: "\<forall>n\<in>fst ` set plain_src. endswith n ''.j2'' \<longrightarrow> \<not> endswith (strip3 n) ''.j2''"
    by (simp add: plain_src_def endswith_def strip3_def)
  have l2: "lookup_path plain_src [''sub'', ''x.j2''] = Some (File ''{{ name }}'')"
    by (simp add: plain_src_def)
  have ap: "apart ''/w/tpl/app'' ''/w/out/app''" by (rule apart_demo)
  then have ap': "apart (srcDir ?opts) (destDir ?opts)" by (simp add: demo_opts_def)
  from fresh_destination_file_set[of jinja_vars ?opts ?W "snd ?r" plain_src] ok s wf d h ap'
  have A: "\<forall>p. is_file (lookup_path (listing (snd ?r) ''/w/out/app'') p)
          \<longleftrightarrow> (\<exists>q. is_file (lookup_path plain_src q)
                   \<and> \<not> list_ex (\<lambda>n. startswith n ''.nfs'') q \<and> strip_top q = p)"
    and B: "\<forall>n q content. q \<noteq> [] \<longrightarrow>
          (lookup_path (listing (snd ?r) ''/w/out/app'') (n # q) = Some (File content)
           \<longleftrightarrow> lookup_path plain_src (n # q) = Some (File content)
               \<and> \<not> list_ex (\<lambda>n. startswith n ''.nfs'') (n # q))"
    unfolding dd by blast+
  from B have B': "lookup_path (listing (snd ?r) ''/w/out/app'') [''sub'', ''x.j2''] = Some (File ''{{ name }}'')
        \<longleftrightarrow> lookup_path plain_src [''sub'', ''x.j2''] = Some (File ''{{ name }}'')
             \<and> \<not> list_ex (\<lambda>n. startswith n ''.nfs'') [''sub'', ''x.j2'']"
    by blast
  from wf ap fr A B' l2 show ?thesis by blast
qed

theorem fresh_destination_file_set_counterexample:
  "fst (deploy_app jinja_vars (demo_opts demo_ctx) (world greeting_src (Some (Dir old_dest)))) = None
   \<and> is_file (lookup_path (listing (snd (deploy_app jinja_vars (demo_opts demo_ctx)
        (world greeting_src (Some (Dir old_dest))))) ''/w/out/app'') [''old.txt''])
   \<and> \<not> (\<exists>q. is_file (lookup_path greeting_src q) \<and> strip_top q = [''old.txt''])"
proof -
  have "\<not> (\<exists>q. is_file (lookup_path greeting_src q) \<and> strip_top q = [''old.txt''])"
  proof
    assume "\<exists>q. is_file (lookup_path greeting_src q) \<and> strip_top q = [''old.txt'']"
    then obtain q where q: "is_file (lookup_path greeting_src q)" "strip_top q = [''old.txt'']"
      by blast
    from greeting_src_files[OF q(1)] q(2) show False
      by (simp add: endswith_def strip3_def)
  qed
  then show ?thesis
    by (simp add: run_old listing_def)
qed

text \<open>
  Claim C4. When nothing stands at \<^verbatim>\<open>os.path.join(dest_dir, template_name)\<close>,
  \<open>render_template\<close> returns without an error and leaves the whole state as it was:
  no output file is written, nothing is deleted, the engine is not called.
\<close>

theorem render_template_skips_missing:
  "entry st dest_dir template_name = None \<Longrightarrow>
   render_template eng dest_dir template_name file_name input_json st = (None, st)"
  by (rule render_template_absent)

theorem render_template_skips_missing_witness:
  "entry (world [] (Some (Dir [(''config.yaml'', File ''a: 1'')])) :: (string \<times> string) list state) ''/w/out/app'' ''missing.j2'' = None
   \<and> render_template jinja_vars ''/w/out/app'' ''missing.j2'' ''missing'' demo_ctx
        (world [] (Some (Dir [(''config.yaml'', File ''a: 1'')])))
      = (None, world [] (Some (Dir [(''config.yaml'', File ''a: 1'')])))"
proof -
  have h: "entry (world [] (Some (Dir [(''config.yaml'', File ''a: 1'')])) :: (string \<times> string) list state) ''/w/out/app'' ''missing.j2'' = None"
    by (simp add: entry_def listing_def world_def)
  from render_template_skips_missing[OF h] h show ?thesis by simp
qed




text \<open>
  Claim C9. The deletion is the last step of \<open>render_template\<close>. When the call raises
  (the template cannot be loaded, rendering fails, or the output cannot be opened for
  writing), the marked entry is still there, unchanged, and so is every other file. When
  the call returns and the template existed, the engine has produced a text, the marked
  entry is gone and the text stands under the output name.
\<close>

theorem render_template_removes_last:
  assumes "template_name \<noteq> []"
  shows "(render_template eng dest_dir template_name file_name input_json st = (Some e, st') \<longrightarrow>
            entry st dest_dir template_name \<noteq> None
            \<and> entry st' dest_dir template_name = entry st dest_dir template_name
            \<and> files st' = files st)
       \<and> (render_template eng dest_dir template_name file_name input_json st = (None, st')
            \<and> entry st dest_dir template_name \<noteq> None \<longrightarrow>
            (\<exists>source out. entry st dest_dir template_name = Some (File source)
               \<and> eng (listing st dest_dir) source input_json = Some out
               \<and> entry st' dest_dir template_name = None
               \<and> (file_name \<noteq> template_name \<longrightarrow> entry st' dest_dir file_name = Some (File out))))"
proof (intro conjI impI)
  assume r: "render_template eng dest_dir template_name file_name input_json st = (Some e, st')"
  from render_template_err[OF r assms] 
  show "entry st dest_dir template_name \<noteq> None" and f: "files st' = files st" by simp_all
  from f show "entry st' dest_dir template_name = entry st dest_dir template_name"
    by (simp add: entry_def listing_def)
next
  assume "render_template eng dest_dir template_name file_name input_json st = (None, st')
            \<and> entry st dest_dir template_name \<noteq> None"
  then have r: "render_template eng dest_dir template_name file_name input_json st = (None, st')"
    and ex: "entry st dest_dir template_name \<noteq> None" by simp_all
  from render_template_ok[OF r ex assms] obtain source out where
    h: "map_of (listing st dest_dir) template_name = Some (File source)"
       "eng (listing st dest_dir) source input_json = Some out"
       "file_name \<noteq> []"
       "st' = set_listing dest_dir (AList.delete template_name (AList.update file_name (File out) (listing st dest_dir)))
                  (st\<lparr>events := events st @ [Rendered dest_dir template_name input_json]\<rparr>)"
    by blast
  have "entry st dest_dir template_name = Some (File source)"
    using h(1) assms by (simp add: entry_def)
  moreover have "entry st' dest_dir template_name = None"
    using assms by (simp add: h(4) entry_after_render)
  moreover have "file_name \<noteq> template_name \<longrightarrow> entry st' dest_dir file_name = Some (File out)"
    using h(3) by (simp add: h(4) entry_after_render)
  ultimately show "\<exists>source out. entry st dest_dir template_name = Some (File source)
               \<and> eng (listing st dest_dir) source input_json = Some out
               \<and> entry st' dest_dir template_name = None
               \<and> (file_name \<noteq> template_name \<longrightarrow> entry st' dest_dir file_name = Some (File out))"
    using h(2) by blast
qed

theorem render_template_removes_last_witness:
  "''bad.j2'' \<noteq> []
   \<and> render_template jinja_vars ''/w/out/app'' ''bad.j2'' ''bad'' demo_ctx
        (world [] (Some (Dir [(''bad.j2'', File ''Hello, {{ name'')])))
      = (Some TemplateError,
         (world [] (Some (Dir [(''bad.j2'', File ''Hello, {{ name'')])))
           \<lparr>events := [Rendered ''/w/out/app'' ''bad.j2'' demo_ctx]\<rparr>)
   \<and> entry ((world [] (Some (Dir [(''bad.j2'', File ''Hello, {{ name'')])))
           \<lparr>events := [Rendered ''/w/out/app'' ''bad.j2'' demo_ctx]\<rparr> :: (string \<times> string) list state)
         ''/w/out/app'' ''bad.j2'' = Some (File ''Hello, {{ name'')"
proof -
  let ?W = "world [] (Some (Dir [(''bad.j2'', File ''Hello, {{ name'')])) :: (string \<times> string) list state"
  have e: "entry ?W ''/w/out/app'' ''bad.j2'' = Some (File ''Hello, {{ name'')"
    by (simp add: entry_def listing_def world_def)
  have j: "jinja_vars (listing ?W ''/w/out/app'') ''Hello, {{ name'' demo_ctx = None"
    by (simp add: jinja_vars_def)
  have r: "render_template jinja_vars ''/w/out/app'' ''bad.j2'' ''bad'' demo_ctx ?W
      = (Some TemplateError, ?W\<lparr>events := [Rendered ''/w/out/app'' ''bad.j2'' demo_ctx]\<rparr>)"
    using e j by (simp add: render_template_def get_template_render_def entry_def world_def)
  have n: "''bad.j2'' \<noteq> []" by simp
  from render_template_removes_last[OF n, of jinja_vars "''/w/out/app''" "''bad''" demo_ctx ?W TemplateError
      "?W\<lparr>events := [Rendered ''/w/out/app'' ''bad.j2'' demo_ctx]\<rparr>"] r e
  show ?thesis by simp
qed

text \<open>
  Claim C10. The loop of \<open>deploy_app\<close> selects by name only: what it does is to call
  \<open>render_template\<close>, in the order of the listing, for exactly the names that end in
  \<^verbatim>\<open>.j2\<close>, whatever stands under them, and for no other name. A directory directly inside
  the destination whose name ends in \<^verbatim>\<open>.j2\<close> is therefore among the names passed to
  \<open>render_template\<close>; the call passes the existence check (it does not return silently)
  and reaches the loader, which raises \<^verbatim>\<open>TemplateNotFound\<close>. So the run cannot end
  normally, and when no marked name is listed before the directory this is the error the
  run ends with, right after the copy.
\<close>

theorem marked_directory_is_selected:
  assumes "endswith n ''.j2''"
    and "os_path_exists st (srcDir opts)"
    and "copy_tree (srcDir opts) (destDir opts) st = (None, st1)"
    and "entry st1 (destDir opts) n = Some (Dir es)"
  shows "render_all eng d c names s
           = render_each eng d c (filter (\<lambda>m. endswith m ''.j2'') names) s
       \<and> deploy_app eng opts st
           = render_each eng (destDir opts) (inputJSON opts)
               (filter (\<lambda>m. endswith m ''.j2'') (map fst (listing st1 (destDir opts)))) st1
       \<and> n \<in> set (filter (\<lambda>m. endswith m ''.j2'') (map fst (listing st1 (destDir opts))))
       \<and> render_template eng (destDir opts) n (strip3 n) (inputJSON opts) st1
           = (Some TemplateNotFound, st1)
       \<and> fst (deploy_app eng opts st) \<noteq> None
       \<and> (list_all (\<lambda>m. \<not> endswith m ''.j2'')
             (takeWhile (\<lambda>m. m \<noteq> n) (map fst (listing st1 (destDir opts))))
          \<longrightarrow> deploy_app eng opts st = (Some TemplateNotFound, st1))"
proof -
  have nne: "n \<noteq> []" using assms(1) by (rule endswith_j2_nonempty)
  have mem: "n \<in> set (map fst (listing st1 (destDir opts)))"
    using assms(4) nne by (auto simp: entry_def dest: map_of_SomeD intro: rev_image_eqI)
  note u = deploy_app_unfold[OF assms(2,3)]
  have one: "render_all eng d c names s
           = render_each eng d c (filter (\<lambda>m. endswith m ''.j2'') names) s"
    by (rule render_all_filter)
  have two: "deploy_app eng opts st
           = render_each eng (destDir opts) (inputJSON opts)
               (filter (\<lambda>m. endswith m ''.j2'') (map fst (listing st1 (destDir opts)))) st1"
    by (simp add: u render_all_filter)
  have three: "n \<in> set (filter (\<lambda>m. endswith m ''.j2'') (map fst (listing st1 (destDir opts))))"
    using mem assms(1) by simp
  have rest: "render_template eng (destDir opts) n (strip3 n) (inputJSON opts) st1
           = (Some TemplateNotFound, st1)
       \<and> fst (deploy_app eng opts st) \<noteq> None
       \<and> (list_all (\<lambda>m. \<not> endswith m ''.j2'')
             (takeWhile (\<lambda>m. m \<noteq> n) (map fst (listing st1 (destDir opts))))
          \<longrightarrow> deploy_app eng opts st = (Some TemplateNotFound, st1))"
    using render_template_dir[OF assms(4) nne]
      render_all_marked_dir_fails[OF mem assms(1,4)]
      render_all_first_marked_dir[OF mem assms(1,4)]
    by (simp add: u)
  from one two three rest show ?thesis by blast
qed

theorem marked_directory_is_selected_witness:
  "endswith ''conf.j2'' ''.j2''
   \<and> os_path_exists (world [(''conf.j2'', Dir [])] None :: (string \<times> string) list state) ''/w/tpl/app''
   \<and> entry (world [(''conf.j2'', Dir [])] (Some (Dir [(''conf.j2'', Dir [])])) :: (string \<times> string) list state)
        ''/w/out/app'' ''conf.j2'' = Some (Dir [])
   \<and> deploy_app jinja_vars (demo_opts demo_ctx) (world [(''conf.j2'', Dir [])] None)
      = render_each jinja_vars ''/w/out/app'' demo_ctx [''conf.j2'']
          (world [(''conf.j2'', Dir [])] (Some (Dir [(''conf.j2'', Dir [])])))
   \<and> deploy_app jinja_vars (demo_opts demo_ctx) (world [(''conf.j2'', Dir [])] None)
      = (Some TemplateNotFound, world [(''conf.j2'', Dir [])] (Some (Dir [(''conf.j2'', Dir [])])))
   \<and> render_all jinja_vars ''/w/out/app'' demo_ctx [''config.yaml'', ''greeting.txt.j2'', ''sub'']
        (world plain_src (Some (Dir plain_src)))
      = render_each jinja_vars ''/w/out/app'' demo_ctx [''greeting.txt.j2'']
          (world plain_src (Some (Dir plain_src)))"
proof -
  let ?W = "world [(''conf.j2'', Dir [])] None :: (string \<times> string) list state"
  let ?W1 = "world [(''conf.j2'', Dir [])] (Some (Dir [(''conf.j2'', Dir [])])) :: (string \<times> string) list state"
  let ?P = "world plain_src (Some (Dir plain_src)) :: (string \<times> string) list state"
  have a: "endswith ''conf.j2'' ''.j2''" by (simp add: endswith_def)
  have b: "os_path_exists ?W (srcDir (demo_opts demo_ctx))"
    by (simp add: os_path_exists_def world_def demo_opts_def)
  have c: "copy_tree (srcDir (demo_opts demo_ctx)) (destDir (demo_opts demo_ctx)) ?W = (None, ?W1)"
    by (simp add: copy_tree_def world_def demo_opts_def startswith_def set_listing_def)
  have d: "entry ?W1 (destDir (demo_opts demo_ctx)) ''conf.j2'' = Some (Dir [])"
    by (simp add: entry_def listing_def world_def demo_opts_def)
  have l: "list_all (\<lambda>m. \<not> endswith m ''.j2'')
             (takeWhile (\<lambda>m. m \<noteq> ''conf.j2'') (map fst (listing ?W1 (destDir (demo_opts demo_ctx)))))"
    by (simp add: listing_def world_def demo_opts_def)
  have f1: "filter (\<lambda>m. endswith m ''.j2'') (map fst (listing ?W1 (destDir (demo_opts demo_ctx))))
            = [''conf.j2'']"
    by (simp add: listing_def world_def demo_opts_def endswith_def)
  have f2: "filter (\<lambda>m. endswith m ''.j2'') [''config.yaml'', ''greeting.txt.j2'', ''sub'']
            = [''greeting.txt.j2'']"
    by (simp add: endswith_def)
  note t = marked_directory_is_selected[OF a b c d, of jinja_vars "''/w/out/app''" demo_ctx
      "[''config.yaml'', ''greeting.txt.j2'', ''sub'']" ?P]
  from t have A: "render_all jinja_vars ''/w/out/app'' demo_ctx [''config.yaml'', ''greeting.txt.j2'', ''sub''] ?P
      = render_each jinja_vars ''/w/out/app'' demo_ctx [''greeting.txt.j2''] ?P"
    unfolding f2 by blast
  from t have B: "deploy_app jinja_vars (demo_opts demo_ctx) ?W
      = render_each jinja_vars ''/w/out/app'' demo_ctx [''conf.j2''] ?W1"
    unfolding f1 by (simp add: demo_opts_def)
  from t l have C: "deploy_app jinja_vars (demo_opts demo_ctx) ?W = (Some TemplateNotFound, ?W1)"
    by blast
  have b': "os_path_exists ?W ''/w/tpl/app''" using b by (simp add: demo_opts_def)
  have d': "entry ?W1 ''/w/out/app'' ''conf.j2'' = Some (Dir [])" using d by (simp add: demo_opts_def)
  from a b' d' A B C show ?thesis by blast
qed

text \<open>
  Claim C3, as amended. The program calls \<^verbatim>\<open>exit(1)\<close> exactly when the input was loaded, the
  source and destination paths could be computed, and nothing stands at the computed source
  directory; that exit comes before any copy, so the files are as they were. The status of
  the process is 0 exactly when the module body runs to its end; every other run ends with
  status 1, also when a source directory exists and an exception is raised later.
\<close>

theorem exit_one_iff_source_missing:
  "(fst (main eng json_load wd args st) = Some (SystemExit k) \<longleftrightarrow>
      k = 1 \<and> (\<exists>config st0 src dst.
          load_input json_load (input_arg args) st = (Inr config, st0)
        \<and> os_path_join3 wd (template args) (requested args) = Inr src
        \<and> os_path_join3 wd (destination args) (requested args) = Inr dst
        \<and> \<not> os_path_exists st src))
   \<and> (fst (main eng json_load wd args st) = Some (SystemExit k) \<longrightarrow>
        files (snd (main eng json_load wd args st)) = files st)
   \<and> exit_status (fst (main eng json_load wd args st))
        = (if fst (main eng json_load wd args st) = None then 0 else 1)"
proof -
  let ?m = "main eng json_load wd args st"
  let ?R = "k = 1 \<and> (\<exists>config st0 src dst.
          load_input json_load (input_arg args) st = (Inr config, st0)
        \<and> os_path_join3 wd (template args) (requested args) = Inr src
        \<and> os_path_join3 wd (destination args) (requested args) = Inr dst
        \<and> \<not> os_path_exists st src)"
  have fwd: "?R \<and> files (snd ?m) = files st" if a: "fst ?m = Some (SystemExit k)"
  proof -
    from a have m: "?m = (Some (SystemExit k), snd ?m)"
      by (metis prod.collapse)
    from main_exit[OF m] show ?thesis by blast
  qed
  have bwd: "fst ?m = Some (SystemExit k)" if "?R"
    using that by (auto simp: main_missing_source)
  from fwd bwd main_status[of eng json_load wd args st] show ?thesis
    by blast
qed

theorem exit_one_iff_source_missing_witness:
  "fst (main jinja_vars demo_json_load ''/w'' missing_args (world_in greeting_src None))
     = Some (SystemExit 1)
   \<and> os_path_join3 ''/w'' (template missing_args) (requested missing_args) = Inr ''/w/tpl/missingApp''
   \<and> \<not> os_path_exists (world_in greeting_src None :: (string \<times> string) list state) ''/w/tpl/missingApp''
   \<and> files (snd (main jinja_vars demo_json_load ''/w'' missing_args (world_in greeting_src None)))
     = files (world_in greeting_src None :: (string \<times> string) list state)
   \<and> exit_status (fst (main jinja_vars demo_json_load ''/w'' missing_args
         (world_in greeting_src None))) = 1"
proof -
  let ?W = "world_in greeting_src None :: (string \<times> string) list state"
  have r: "requested missing_args = Some ''missingApp''"
    by (simp add: requested_def missing_args_fields)
  have e: "\<not> os_path_exists ?W ''/w/tpl/missingApp''"
    by (simp add: os_path_exists_def world_in_def)
  have h: "\<exists>config st0 src dst.
          load_input demo_json_load (input_arg missing_args) ?W = (Inr config, st0)
        \<and> os_path_join3 ''/w'' (template missing_args) (requested missing_args) = Inr src
        \<and> os_path_join3 ''/w'' (destination missing_args) (requested missing_args) = Inr dst
        \<and> \<not> os_path_exists ?W src"
    using e by (simp add: missing_args_fields r load_demo join_demo)
  from exit_one_iff_source_missing[of jinja_vars demo_json_load "''/w''" missing_args ?W 1] h e
  show ?thesis by (simp add: missing_args_fields r join_demo)
qed

theorem exit_one_iff_source_missing_counterexample:
  "os_path_join3 ''/w'' (template demo_args) (requested demo_args) = Inr ''/w/tpl/app''
   \<and> os_path_exists (world_in bad_src None :: (string \<times> string) list state) ''/w/tpl/app''
   \<and> fst (main jinja_vars demo_json_load ''/w'' demo_args (world_in bad_src None))
       = Some TemplateError
   \<and> exit_status (fst (main jinja_vars demo_json_load ''/w'' demo_args (world_in bad_src None))) = 1
   \<and> files (snd (main jinja_vars demo_json_load ''/w'' demo_args (world_in bad_src None)))
        ''/w/out/app'' = Some (Dir bad_src)"
proof -
  let ?W = "world_in bad_src None :: (string \<times> string) list state"
  let ?V = "?W\<lparr>events := [Loaded ''in.json'']\<rparr>"
  let ?opts = "\<lparr>inputJSON = demo_ctx, cwd = ''/w'', srcDir = ''/w/tpl/app'',
                 destDir = ''/w/out/app'', app = ''app''\<rparr>"
  have r: "requested demo_args = Some ''app''"
    by (simp add: requested_def demo_args_fields)
  have m: "main jinja_vars demo_json_load ''/w'' demo_args ?W = deploy_app jinja_vars ?opts ?V"
    by (simp add: main_unfold demo_args_fields r load_demo join_demo)
  have ex: "os_path_exists ?V (srcDir ?opts)"
    by (simp add: os_path_exists_def world_in_def)
  let ?W1 = "set_listing ''/w/out/app'' bad_src ?V"
  have cp: "copy_tree (srcDir ?opts) (destDir ?opts) ?V = (None, ?W1)"
    by (simp add: copy_tree_def world_in_def bad_src_def startswith_def copy_file_def)
  have l: "listing ?W1 ''/w/out/app'' = bad_src" by simp
  have j: "jinja_vars bad_src ''Hello, {{ name'' demo_ctx = None"
    by (simp add: jinja_vars_def)
  have rt: "render_template jinja_vars ''/w/out/app'' ''bad.j2'' (strip3 ''bad.j2'') demo_ctx ?W1
      = (Some TemplateError, ?W1\<lparr>events := events ?W1 @ [Rendered ''/w/out/app'' ''bad.j2'' demo_ctx]\<rparr>)"
    using j by (simp add: render_template_def get_template_render_def entry_def l)
       (simp add: bad_src_def)
  have nm: "map fst (listing ?W1 (destDir ?opts)) = [''bad.j2'']"
    by (simp add: bad_src_def)
  have mk: "endswith ''bad.j2'' ''.j2''" by (simp add: endswith_def)
  have d: "deploy_app jinja_vars ?opts ?V
      = (Some TemplateError, ?W1\<lparr>events := events ?W1 @ [Rendered ''/w/out/app'' ''bad.j2'' demo_ctx]\<rparr>)"
    unfolding deploy_app_unfold[OF ex cp] nm using rt mk by simp
  show ?thesis
    unfolding m d
    by (simp add: demo_args_fields r join_demo os_path_exists_def) (simp add: world_in_def)
qed

text \<open>
  Claim C6, as amended. The parser does not require \<^verbatim>\<open>-a/--app\<close>: a command line without
  \<^verbatim>\<open>--fullStack\<close> and without \<^verbatim>\<open>-a/--app\<close> parses to a namespace whose application name is
  \<^verbatim>\<open>None\<close>. The program goes on with it, loads the input file, and then raises
  \<^verbatim>\<open>TypeError\<close> when it joins the source path; the process ends with status 1 and no file
  has changed.
\<close>

theorem app_option_not_required:
  "OptFullStack \<notin> set argv \<and> (\<forall>v. OptApp v \<notin> set argv) \<longrightarrow>
     fullStack (parse_args argv) = False \<and> app_arg (parse_args argv) = None
     \<and> fst (main eng json_load wd (parse_args argv) st) \<noteq> None
     \<and> exit_status (fst (main eng json_load wd (parse_args argv) st)) = 1
     \<and> files (snd (main eng json_load wd (parse_args argv) st)) = files st
     \<and> (\<forall>config st0. load_input json_load (input_arg (parse_args argv)) st = (Inr config, st0)
          \<longrightarrow> main eng json_load wd (parse_args argv) st = (Some TypeError, st0))"
proof
  assume a: "OptFullStack \<notin> set argv \<and> (\<forall>v. OptApp v \<notin> set argv)"
  then have f: "fullStack (parse_args argv) = False" and p: "app_arg (parse_args argv) = None"
    by (simp_all add: parse_args_def store_keeps_app store_keeps_fullStack)
  then have r: "requested (parse_args argv) = None" by (simp add: requested_def)
  from main_no_app[OF r, of eng json_load wd st] f p
    main_status[of eng json_load wd "parse_args argv" st]
  show "fullStack (parse_args argv) = False \<and> app_arg (parse_args argv) = None
     \<and> fst (main eng json_load wd (parse_args argv) st) \<noteq> None
     \<and> exit_status (fst (main eng json_load wd (parse_args argv) st)) = 1
     \<and> files (snd (main eng json_load wd (parse_args argv) st)) = files st
     \<and> (\<forall>config st0. load_input json_load (input_arg (parse_args argv)) st = (Inr config, st0)
          \<longrightarrow> main eng json_load wd (parse_args argv) st = (Some TypeError, st0))"
    by simp
qed

theorem app_option_not_required_witness:
  "OptFullStack \<notin> set [OptTemplate ''tpl'', OptInput ''in.json'', OptDestination ''out'']
   \<and> fullStack (parse_args [OptTemplate ''tpl'', OptInput ''in.json'', OptDestination ''out'']) = False
   \<and> app_arg (parse_args [OptTemplate ''tpl'', OptInput ''in.json'', OptDestination ''out'']) = None
   \<and> exit_status (fst (main jinja_vars demo_json_load ''/w''
         (parse_args [OptTemplate ''tpl'', OptInput ''in.json'', OptDestination ''out''])
         (world_in greeting_src None))) = 1
   \<and> files (snd (main jinja_vars demo_json_load ''/w''
         (parse_args [OptTemplate ''tpl'', OptInput ''in.json'', OptDestination ''out''])
         (world_in greeting_src None))) = files (world_in greeting_src None :: (string \<times> string) list state)"
  using app_option_not_required[of "[OptTemplate ''tpl'', OptInput ''in.json'', OptDestination ''out'']"
      jinja_vars demo_json_load "''/w''" "world_in greeting_src None"]
  by simp

theorem app_option_not_required_counterexample:
  "app_arg no_app_args = None \<and> fullStack no_app_args = False
   \<and> main jinja_vars demo_json_load ''/w'' no_app_args (world_in greeting_src None)
      = (Some TypeError, (world_in greeting_src None)\<lparr>events := [Loaded ''in.json'']\<rparr>)
   \<and> exit_status (Some TypeError) \<noteq> 2"
  by (simp add: main_unfold no_app_args_fields load_demo requested_def os_path_join3_def)

text \<open>
  Claim C8. A run parses the input file at most once, before anything is rendered, and
  exactly once when it ends normally; every rendering of the run has as its context the
  mapping that this one parse returned for the text the file held at the start. The same
  holds for the full-stack loop over any list of components: every rendering it causes
  uses the mapping the loop was given.
\<close>

theorem one_mapping_for_every_render:
  "(main eng json_load wd args st = (r, st') \<longrightarrow>
      (r \<noteq> None \<and> events st' = events st)
    \<or> (\<exists>p body. r \<noteq> None \<and> input_arg args = Some p \<and> files st p = Some (File body)
          \<and> json_load body = None \<and> events st' = events st @ [Loaded p])
    \<or> (\<exists>p body config rs. input_arg args = Some p \<and> files st p = Some (File body)
          \<and> json_load body = Some config \<and> events st' = events st @ Loaded p # rs
          \<and> list_all (rendered_with config) rs))
   \<and> (deploy_components eng wd args config comps st = (r, st') \<longrightarrow>
        (\<exists>rs. events st' = events st @ rs \<and> list_all (rendered_with config) rs))"
  using main_events[of eng json_load wd args st r st']
    deploy_components_events[of eng wd args config comps st r st']
  by blast

theorem one_mapping_for_every_render_witness:
  "main jinja_vars demo_json_load ''/w'' stack_args (stack_world greeting_src)
   = (None, set_listing ''/w/out/lambda'' [(''greeting.txt'', File ''Hello, Ada!'')]
        ((stack_world greeting_src)\<lparr>events :=
            [Loaded ''in.json'', Rendered ''/w/out/lambda'' ''greeting.txt.j2'' demo_ctx]\<rparr>))
   \<and> demo_json_load demo_input = Some demo_ctx
   \<and> list_all (rendered_with demo_ctx) [Rendered ''/w/out/lambda'' ''greeting.txt.j2'' demo_ctx]
   \<and> (\<exists>rs. [Loaded ''in.json'', Rendered ''/w/out/lambda'' ''greeting.txt.j2'' demo_ctx]
             = Loaded ''in.json'' # rs \<and> list_all (rendered_with demo_ctx) rs)"
proof -
  let ?st' = "set_listing ''/w/out/lambda'' [(''greeting.txt'', File ''Hello, Ada!'')]
        ((stack_world greeting_src)\<lparr>events :=
            [Loaded ''in.json'', Rendered ''/w/out/lambda'' ''greeting.txt.j2'' demo_ctx]\<rparr>)
        :: (string \<times> string) list state"
  have f: "files (stack_world greeting_src :: (string \<times> string) list state) ''in.json''
             = Some (File demo_input)"
    and ev: "events (stack_world greeting_src :: (string \<times> string) list state) = []"
    by (simp_all add: stack_world_def)
  have j: "demo_json_load demo_input = Some demo_ctx" by (simp add: demo_json_load_def)
  from one_mapping_for_every_render[of jinja_vars demo_json_load "''/w''" stack_args "stack_world greeting_src"
      None ?st'] main_stack_greeting f ev j
  show ?thesis by (auto simp: stack_args_fields)
qed

text \<open>
  Claim C5, as amended. The rendering pass, however it ends, leaves an entry of the
  destination whose name does not end in \<^verbatim>\<open>.j2\<close> untouched unless the listing also holds
  that name with \<^verbatim>\<open>.j2\<close> appended (rendering that template overwrites it). After a
  successful run with source and destination apart (neither directory inside the other),
  a file of a well-formed source tree stands in the destination under its path with the
  source's contents, for every engine and input mapping, provided that no name on the
  path starts with \<^verbatim>\<open>.nfs\<close>, that the destination had no directory at that path, and, for
  a file directly inside the source, that its name does not end in \<^verbatim>\<open>.j2\<close> and that neither
  source nor destination holds that name with \<^verbatim>\<open>.j2\<close> appended. Below the top level this
  holds for marked names too.
\<close>

theorem plain_files_survive:
  "(m \<noteq> [] \<and> \<not> endswith m ''.j2'' \<and> m @ ''.j2'' \<notin> set names
    \<longrightarrow> entry (snd (render_all eng d c names st)) d m = entry st d m)
   \<and> (deploy_app eng opts st = (None, st') \<and> files st (srcDir opts) = Some (Dir src)
      \<and> apart (srcDir opts) (destDir opts)
      \<and> wf_dir src \<and> lookup_path src p = Some (File content)
      \<and> \<not> list_ex (\<lambda>n. startswith n ''.nfs'') p
      \<and> (\<forall>x. lookup_path (listing st (destDir opts)) p \<noteq> Some (Dir x))
      \<and> (\<forall>n. p = [n] \<longrightarrow> \<not> endswith n ''.j2'' \<and> n @ ''.j2'' \<notin> fst ` set src
              \<and> n @ ''.j2'' \<notin> fst ` set (listing st (destDir opts)))
    \<longrightarrow> lookup_path (listing st' (destDir opts)) p = Some (File content))"
proof (intro conjI impI)
  assume "m \<noteq> [] \<and> \<not> endswith m ''.j2'' \<and> m @ ''.j2'' \<notin> set names"
  then show "entry (snd (render_all eng d c names st)) d m = entry st d m"
    by (intro render_all_frame_any[of eng d c names st "fst (render_all eng d c names st)"]) auto
next
  assume a: "deploy_app eng opts st = (None, st') \<and> files st (srcDir opts) = Some (Dir src)
      \<and> apart (srcDir opts) (destDir opts)
      \<and> wf_dir src \<and> lookup_path src p = Some (File content)
      \<and> \<not> list_ex (\<lambda>n. startswith n ''.nfs'') p
      \<and> (\<forall>x. lookup_path (listing st (destDir opts)) p \<noteq> Some (Dir x))
      \<and> (\<forall>n. p = [n] \<longrightarrow> \<not> endswith n ''.j2'' \<and> n @ ''.j2'' \<notin> fst ` set src
              \<and> n @ ''.j2'' \<notin> fst ` set (listing st (destDir opts)))"
  let ?dst = "destDir opts"
  from a have dep: "deploy_app eng opts st = (None, st')" by simp
  from deploy_app_ok[OF dep] a obtain ds' where
    cn: "copy_names src (listing st ?dst) = (None, ds')"
    and ra: "render_all eng ?dst (inputJSON opts) (map fst ds') (set_listing ?dst ds' st) = (None, st')"
    by auto
  let ?st1 = "set_listing ?dst ds' st"
  from a have wf: "wf_dir src" and lp: "lookup_path src p = Some (File content)" by simp_all
  from a have cp: "lookup_path ds' p = Some (File content)"
    by (intro copy_path[OF wf cn lp]) auto
  show "lookup_path (listing st' ?dst) p = Some (File content)"
  proof (cases p)
    case Nil
    with lp show ?thesis by simp
  next
    case (Cons n q)
    from lookup_path_names[OF wf lp[unfolded Cons]] have nne: "n \<noteq> []" .
    show ?thesis
    proof (cases q)
      case Nil
      with Cons a have un: "\<not> endswith n ''.j2''" and n1: "n @ ''.j2'' \<notin> fst ` set src"
        and n2: "n @ ''.j2'' \<notin> fst ` set (listing st ?dst)" by simp_all
      from copy_names_absent[OF cn n1 n2] have "n @ ''.j2'' \<notin> set (map fst ds')" by simp
      from render_all_frame[OF ra nne _ this] un have "entry st' ?dst n = entry ?st1 ?dst n"
        by simp
      with nne cp Cons Nil show ?thesis by (simp add: entry_def)
    next
      case (Cons n' q')
      with cp \<open>p = n # q\<close> obtain d1 where
        d1: "map_of ds' n = Some (Dir d1)" and l1: "lookup_path d1 q = Some (File content)"
        by (auto split: option.splits node.splits)
      from d1 nne have "entry ?st1 ?dst n = Some (Dir d1)" by (simp add: entry_def)
      from render_all_keeps_dir[OF ra this nne] nne have "map_of (listing st' ?dst) n = Some (Dir d1)"
        by (simp add: entry_def)
      with l1 Cons \<open>p = n # q\<close> show ?thesis by simp
    qed
  qed
qed

theorem plain_files_survive_witness:
  "wf_dir plain_src
   \<and> apart ''/w/tpl/app'' ''/w/out/app''
   \<and> lookup_path plain_src [''config.yaml''] = Some (File ''a: 1'')
   \<and> lookup_path plain_src [''sub'', ''x.j2''] = Some (File ''{{ name }}'')
   \<and> fst (deploy_app jinja_vars (demo_opts demo_ctx) (world plain_src None)) = None
   \<and> lookup_path (listing (snd (deploy_app jinja_vars (demo_opts demo_ctx) (world plain_src None)))
        ''/w/out/app'') [''config.yaml''] = Some (File ''a: 1'')
   \<and> lookup_path (listing (snd (deploy_app jinja_vars (demo_opts demo_ctx) (world plain_src None)))
        ''/w/out/app'') [''sub'', ''x.j2''] = Some (File ''{{ name }}'')
   \<and> entry (snd (render_all jinja_vars ''/w/out/app'' demo_ctx (map fst plain_src)
        (world plain_src (Some (Dir plain_src))))) ''/w/out/app'' ''config.yaml''
      = Some (File ''a: 1'')"
proof -
  let ?W = "world plain_src None :: (string \<times> string) list state"
  let ?W1 = "world plain_src (Some (Dir plain_src)) :: (string \<times> string) list state"
  let ?opts = "demo_opts demo_ctx"
  let ?r = "deploy_app jinja_vars ?opts ?W"
  let ?q = "render_all jinja_vars ''/w/out/app'' demo_ctx (map fst plain_src) ?W1"
  have wf: "wf_dir plain_src" by (simp add: plain_src_def)
  have l1: "lookup_path plain_src [''config.yaml''] = Some (File ''a: 1'')"
    and l2: "lookup_path plain_src [''sub'', ''x.j2''] = Some (File ''{{ name }}'')"
    by (simp_all add: plain_src_def)
  have ok: "?r = (None, snd ?r)" by (simp add: run_plain)
  have ap: "apart ''/w/tpl/app'' ''/w/out/app''" by (rule apart_demo)
  then have ap': "apart (srcDir ?opts) (destDir ?opts)" by (simp add: demo_opts_def)
  have s: "files ?W (srcDir ?opts) = Some (Dir plain_src)"
    and d: "listing ?W (destDir ?opts) = []" and dd: "destDir ?opts = ''/w/out/app''"
    by (simp_all add: world_def demo_opts_def listing_def)
  have n1: "\<not> list_ex (\<lambda>n. startswith n ''.nfs'') [''config.yaml'']"
    and n2: "\<not> list_ex (\<lambda>n. startswith n ''.nfs'') [''sub'', ''x.j2'']"
    by (simp_all add: startswith_def)
  have u: "\<not> endswith ''config.yaml'' ''.j2''" by (simp add: endswith_def)
  have a1: "''config.yaml'' @ ''.j2'' \<notin> fst ` set plain_src"
    and a2: "''config.yaml'' @ ''.j2'' \<notin> set (map fst plain_src)"
    by (simp_all add: plain_src_def)
  have e1: "entry ?W1 ''/w/out/app'' ''config.yaml'' = Some (File ''a: 1'')"
    by (simp add: entry_def listing_def world_def plain_src_def)
  from plain_files_survive[where eng = jinja_vars and d = "''/w/out/app''" and c = demo_ctx
      and names = "map fst plain_src" and st = ?W1 and m = "''config.yaml''"] u a2 e1
  have A: "entry (snd ?q) ''/w/out/app'' ''config.yaml'' = Some (File ''a: 1'')"
    by simp
  from plain_files_survive[where eng = jinja_vars and st = ?W and st' = "snd ?r"
      and opts = ?opts and src = plain_src and p = "[''config.yaml'']" and content = "''a: 1''"]
    ok s ap' wf l1 n1 d u a1
  have B1: "lookup_path (listing (snd ?r) ''/w/out/app'') [''config.yaml''] = Some (File ''a: 1'')"
    by (simp add: dd)
  from plain_files_survive[where eng = jinja_vars and st = ?W and st' = "snd ?r"
      and opts = ?opts and src = plain_src and p = "[''sub'', ''x.j2'']"
      and content = "''{{ name }}''"]
    ok s ap' wf l2 n2 d
  have B2: "lookup_path (listing (snd ?r) ''/w/out/app'') [''sub'', ''x.j2''] = Some (File ''{{ name }}'')"
    by (simp add: dd)
  have fr: "fst ?r = None" by (simp add: run_plain)
  from wf ap l1 l2 fr A B1 B2 show ?thesis by blast
qed

theorem plain_files_survive_counterexample:
  "fst (deploy_app jinja_vars (demo_opts demo_ctx) (world clash_src None)) = None
   \<and> lookup_path clash_src [''config.yaml''] = Some (File ''a: 1'')
   \<and> \<not> endswith ''config.yaml'' ''.j2''
   \<and> lookup_path (listing (snd (deploy_app jinja_vars (demo_opts demo_ctx) (world clash_src None)))
        ''/w/out/app'') [''config.yaml''] = Some (File ''a: Ada'')
   \<and> ''a: Ada'' \<noteq> ''a: 1''"
  by (simp add: run_clash) (simp add: clash_src_def endswith_def listing_def)




end
